theory Spec2Isabelle
  imports Main "HOL-Library.Word" "HOL-Library.Code_Target_Numeral"
begin

unbundle bit_operations_syntax

section \<open>Data model of \<open>CodeAllocator.cpp\<close>\<close>

text \<open>
  \<open>size_t\<close> and \<open>uintptr_t\<close> are 64-bit unsigned integers on the targets of the native
  code generator; pointers (\<open>uint8_t*\<close>, \<open>void*\<close>) are their addresses and \<open>nullptr\<close>
  is address 0. Arithmetic on both wraps around modulo \<open>2 ^ 64\<close>, as in the program.
\<close>

type_synonym size_t = "64 word"
type_synonym addr = "64 word"

text \<open>
  The two constants the file reads but does not fix: \<open>kPageSize\<close> is asked from the
  operating system (\<open>sysconf(_SC_PAGESIZE)\<close>; 4096 under Windows), and
  \<open>kMaxUnwindDataSize\<close> is declared in the header \<open>Luau/CodeAllocator.h\<close>. Both are
  parameters of the model.
\<close>

record platform =
  kPageSize :: size_t
  kMaxUnwindDataSize :: size_t

text \<open>
  The calls that leave the allocator: the four platform primitives, \<open>memcpy\<close> and the two
  client callbacks. Every function of the model returns the calls it made, in order.
\<close>

datatype event =
    AllocatePages size_t addr
  | FreePages addr size_t
  | Memcpy addr addr size_t
  | MakePagesExecutable addr size_t
  | FlushInstructionCache addr size_t
  | CreateBlockUnwindInfo addr addr size_t
  | DestroyBlockUnwindInfo addr addr

text \<open>
  Modelled from the spec: the macro \<open>LUAU_ASSERT\<close> is defined in \<open>Luau/Common.h\<close>, which
  is not among the sources. By section 7 of the specification the failures it guards
  terminate the process via an assertion: a failed \<open>LUAU_ASSERT\<close> is the one fatal
  outcome of the model, kept apart from the \<open>false\<close> that \<open>allocate\<close> returns to its
  caller.
\<close>

datatype fatal = AssertFailed

text \<open>
  Modelled from the spec: \<open>class CodeAllocator\<close> is declared in
  \<open>Luau/CodeAllocator.h\<close>, which is not among the sources. The fields are those that
  \<open>CodeAllocator.cpp\<close> reads and writes, with the roles section 3 of the specification
  gives them (allocator state). The two callbacks are function pointers; the model keeps
  whether each is set, and takes what a call of \<open>createBlockUnwindInfo\<close> answers from the
  environment of the call (below), since a callback is free to answer differently each
  time.
\<close>

record CodeAllocator =
  blockSize :: size_t
  maxTotalSize :: size_t
  context' :: addr
  createBlockUnwindInfo :: bool
  destroyBlockUnwindInfo :: bool
  blocks :: "addr list"
  unwindInfos :: "addr list"
  blockPos :: addr
  blockEnd :: addr

text \<open>
  What the world outside answers during one call of \<open>allocate\<close>. Each of the three is
  asked at most once per call: \<open>pages_ret\<close> is the pointer \<open>allocatePages\<close> returns
  (0 for \<open>nullptr\<close>), \<open>create_ret\<close> the handle \<open>createBlockUnwindInfo\<close> returns (0 for
  \<open>nullptr\<close>) and \<open>create_size\<close> the value it leaves in its reference parameter
  \<open>unwindInfoSize\<close>, \<open>protect_ok\<close> whether \<open>mprotect\<close> reports success.
\<close>

record env =
  pages_ret :: addr
  create_ret :: addr
  create_size :: size_t
  protect_ok :: bool

text \<open>The arguments of \<open>allocate\<close>: two buffers, each a pointer and a byte count.\<close>

record request =
  data :: addr
  dataSize :: size_t
  code :: addr
  codeSize :: size_t

section \<open>Operations\<close>

text \<open>\<open>alignToPageSize\<close>: \<open>(size + kPageSize - 1) & ~(kPageSize - 1)\<close>.\<close>

definition alignToPageSize :: "platform \<Rightarrow> size_t \<Rightarrow> size_t" where
  "alignToPageSize P sz = (sz + kPageSize P - 1) AND NOT (kPageSize P - 1)"

text \<open>The rounding \<open>(x + 15) & ~15\<close> that \<open>allocate\<close> and \<open>allocateNewBlock\<close> both use.\<close>

definition roundUp16 :: "size_t \<Rightarrow> size_t" where
  "roundUp16 x = (x + 15) AND NOT 15"

text \<open>
  \<open>makePagesExecutable\<close> (the POSIX variant): two assertions on its arguments, then
  \<open>mprotect\<close>, whose failure is an assertion failure too.
\<close>

definition makePagesExecutable :: "platform \<Rightarrow> env \<Rightarrow> addr \<Rightarrow> size_t \<Rightarrow> fatal + event list" where
  "makePagesExecutable P E mem sz =
     (if mem AND (kPageSize P - 1) \<noteq> 0 then Inl AssertFailed
      else if sz \<noteq> alignToPageSize P sz then Inl AssertFailed
      else if \<not> protect_ok E then Inl AssertFailed
      else Inr [MakePagesExecutable mem sz])"

text \<open>
  The constructor with its two assertions. It assigns \<open>blockSize\<close> and \<open>maxTotalSize\<close>;
  the other fields start as the header declares them, which by section 3 of the
  specification is no block and a null cursor and sentinel. The callbacks and the
  context are fields that the client sets after construction; \<open>fresh\<close> takes them as
  arguments.
\<close>

definition fresh :: "platform \<Rightarrow> size_t \<Rightarrow> size_t \<Rightarrow> addr \<Rightarrow> bool \<Rightarrow> bool \<Rightarrow> fatal + CodeAllocator" where
  "fresh P bs mts ctx cr de =
     (if \<not> bs > kMaxUnwindDataSize P then Inl AssertFailed
      else if \<not> mts \<ge> bs then Inl AssertFailed
      else Inr \<lparr>blockSize = bs, maxTotalSize = mts, context' = ctx,
                createBlockUnwindInfo = cr, destroyBlockUnwindInfo = de,
                blocks = [], unwindInfos = [], blockPos = 0, blockEnd = 0\<rparr>)"

text \<open>
  \<open>allocateNewBlock(size_t& unwindInfoSize)\<close>. The result is the returned \<open>bool\<close>, the
  value of the reference parameter afterwards, the allocator afterwards and the calls
  made. The order of the source is kept: the cursor and \<open>blocks\<close> are assigned before
  the callback is asked.
\<close>

definition allocateNewBlock ::
  "platform \<Rightarrow> env \<Rightarrow> size_t \<Rightarrow> CodeAllocator \<Rightarrow> fatal + (bool \<times> size_t \<times> CodeAllocator \<times> event list)" where
  "allocateNewBlock P E unwindInfoSize A =
     (if (word_of_nat (length (blocks A)) + 1) * blockSize A > maxTotalSize A
      then Inr (False, unwindInfoSize, A, [])
      else
        let block = pages_ret E;
            ev = [AllocatePages (blockSize A) block]
        in if block = 0 then Inr (False, unwindInfoSize, A, ev)
           else
             let A1 = A\<lparr>blockPos := block, blockEnd := block + blockSize A,
                        blocks := blocks A @ [block]\<rparr>
             in if createBlockUnwindInfo A then
                  let unwindInfo = create_ret E;
                      ev1 = ev @ [CreateBlockUnwindInfo (context' A) block (blockSize A)];
                      unwindInfoSize1 = (create_size E + 15) AND NOT 15
                  in if \<not> unwindInfoSize1 \<le> kMaxUnwindDataSize P then Inl AssertFailed
                     else if unwindInfo = 0 then Inr (False, unwindInfoSize1, A1, ev1)
                     else Inr (True, unwindInfoSize1,
                               A1\<lparr>unwindInfos := unwindInfos A @ [unwindInfo]\<rparr>, ev1)
                else Inr (True, unwindInfoSize, A1, ev))"

text \<open>
  Lines 128 to 150 of \<open>allocate\<close>: the layout at the cursor, the two copies, the
  protection change, the cache flush, the three results and the advance of the cursor.
  \<open>ev\<close> holds the calls already made by this \<open>allocate\<close>.
\<close>

definition publish ::
  "platform \<Rightarrow> env \<Rightarrow> request \<Rightarrow> size_t \<Rightarrow> CodeAllocator \<Rightarrow> event list \<Rightarrow>
   fatal + ((addr \<times> size_t \<times> addr) option \<times> CodeAllocator \<times> event list)" where
  "publish P E R unwindInfoSize A ev =
     (let alignedDataSize = (dataSize R + 15) AND NOT 15;
          totalSize = alignedDataSize + codeSize R
      in if blockPos A AND (kPageSize P - 1) \<noteq> 0 then Inl AssertFailed
         else
           let dataOffset = unwindInfoSize + alignedDataSize - dataSize R;
               codeOffset = unwindInfoSize + alignedDataSize;
               ev1 = (if dataSize R \<noteq> 0
                      then [Memcpy (blockPos A + dataOffset) (data R) (dataSize R)] else []);
               ev2 = (if codeSize R \<noteq> 0
                      then [Memcpy (blockPos A + codeOffset) (code R) (codeSize R)] else []);
               pageSize = alignToPageSize P (unwindInfoSize + totalSize)
           in case makePagesExecutable P E (blockPos A) pageSize of
                Inl e \<Rightarrow> Inl e
              | Inr ev3 \<Rightarrow>
                  let ev4 = [FlushInstructionCache (blockPos A + codeOffset) (codeSize R)];
                      A1 = A\<lparr>blockPos := blockPos A + pageSize\<rparr>
                  in if blockPos A1 AND (kPageSize P - 1) \<noteq> 0 then Inl AssertFailed
                     else Inr (Some (blockPos A + unwindInfoSize, totalSize,
                                     blockPos A + codeOffset),
                               A1, ev @ ev1 @ ev2 @ ev3 @ ev4))"

text \<open>
  \<open>allocate\<close>. The three reference parameters \<open>result\<close>, \<open>resultSize\<close> and
  \<open>resultCodeStart\<close> are written only when the function returns \<open>true\<close>: the model
  returns \<open>Some\<close> of the three for \<open>true\<close> and \<open>None\<close> for \<open>false\<close>.
\<close>

definition allocate ::
  "platform \<Rightarrow> env \<Rightarrow> request \<Rightarrow> CodeAllocator \<Rightarrow>
   fatal + ((addr \<times> size_t \<times> addr) option \<times> CodeAllocator \<times> event list)" where
  "allocate P E R A =
     (let alignedDataSize = (dataSize R + 15) AND NOT 15;
          totalSize = alignedDataSize + codeSize R
      in if totalSize > blockSize A - kMaxUnwindDataSize P then Inr (None, A, [])
         else if totalSize > blockEnd A - blockPos A then
           (case allocateNewBlock P E 0 A of
              Inl e \<Rightarrow> Inl e
            | Inr (ok, unwindInfoSize, A1, ev) \<Rightarrow>
                if \<not> ok then Inr (None, A1, ev)
                else if \<not> totalSize \<le> blockEnd A1 - blockPos A1 then Inl AssertFailed
                else publish P E R unwindInfoSize A1 ev)
         else publish P E R 0 A [])"

text \<open>
  The destructor. \<open>freePages\<close> asserts that \<open>munmap\<close> succeeded; \<open>free_ok\<close> says for
  which blocks it does. The calls made are returned also when an assertion stops the
  loop.
\<close>

fun freeBlocks :: "(addr \<Rightarrow> bool) \<Rightarrow> size_t \<Rightarrow> addr list \<Rightarrow> event list \<times> fatal option" where
  "freeBlocks free_ok bs [] = ([], None)"
| "freeBlocks free_ok bs (block # rest) =
     (if free_ok block
      then (let (ev, r) = freeBlocks free_ok bs rest in (FreePages block bs # ev, r))
      else ([FreePages block bs], Some AssertFailed))"

definition destructor :: "(addr \<Rightarrow> bool) \<Rightarrow> CodeAllocator \<Rightarrow> event list \<times> fatal option" where
  "destructor free_ok A =
     (let ev1 = (if destroyBlockUnwindInfo A
                 then map (DestroyBlockUnwindInfo (context' A)) (unwindInfos A) else []);
          (ev2, r) = freeBlocks free_ok (blockSize A) (blocks A)
      in (ev1 @ ev2, r))"

text \<open>
  A sequence of \<open>allocate\<close> calls on one allocator, each with the answers of the world
  during that call. The result is the final allocator and what each call returned.
\<close>

fun run ::
  "platform \<Rightarrow> (env \<times> request) list \<Rightarrow> CodeAllocator \<Rightarrow>
   fatal + (CodeAllocator \<times> (addr \<times> size_t \<times> addr) option list)" where
  "run P [] A = Inr (A, [])"
| "run P ((E, R) # cs) A =
     (case allocate P E R A of
        Inl e \<Rightarrow> Inl e
      | Inr (res, A1, ev) \<Rightarrow>
          (case run P cs A1 of
             Inl e \<Rightarrow> Inl e
           | Inr (A2, rs) \<Rightarrow> Inr (A2, res # rs)))"

section \<open>The configuration of the scenarios\<close>

text \<open>
  The scenarios of the specification run with pages of 4096 bytes, blocks of four pages,
  256 bytes kept for unwind data and a cap of sixteen pages; \<open>hook\<close> says whether the
  two unwind callbacks are set.
\<close>

definition S_platform :: platform where
  "S_platform = \<lparr>kPageSize = 4096, kMaxUnwindDataSize = 256\<rparr>"

definition S_allocator :: "bool \<Rightarrow> CodeAllocator" where
  "S_allocator hook = \<lparr>blockSize = 16384, maxTotalSize = 65536, context' = 0,
     createBlockUnwindInfo = hook, destroyBlockUnwindInfo = hook,
     blocks = [], unwindInfos = [], blockPos = 0, blockEnd = 0\<rparr>"

text \<open>
  A call environment of the scenarios: the platform hands out the block at \<open>b\<close> and
  accepts the protection change; the create callback, where it is set, returns the
  handle \<open>h\<close> and reports \<open>n\<close> bytes written.
\<close>

definition S_env :: "addr \<Rightarrow> addr \<Rightarrow> size_t \<Rightarrow> env" where
  "S_env b h n = \<lparr>pages_ret = b, create_ret = h, create_size = n, protect_ok = True\<rparr>"

text \<open>A request of the scenarios: \<open>d\<close> bytes of data and \<open>c\<close> bytes of code.\<close>

definition S_request :: "size_t \<Rightarrow> size_t \<Rightarrow> request" where
  "S_request d c = \<lparr>data = 8192, dataSize = d, code = 12288, codeSize = c\<rparr>"

text \<open>
  The allocator of the scenarios, without callbacks, after four requests that fill one
  block each, for a platform that hands out the blocks at 65536, 131072, 196608 and
  262144.
\<close>

definition S_full :: CodeAllocator where
  "S_full = S_allocator False \<lparr>blockPos := 278528, blockEnd := 278528,
              blocks := [65536, 131072, 196608, 262144]\<rparr>"

section \<open>What is assumed of the platform\<close>

text \<open>
  \<open>granted P E\<close>: during this call the platform hands out a block that is not null and
  starts on a page boundary, and accepts the protection change.
\<close>

definition granted :: "platform \<Rightarrow> env \<Rightarrow> bool" where
  "granted P E \<longleftrightarrow>
     pages_ret E \<noteq> 0 \<and> pages_ret E AND (kPageSize P - 1) = 0 \<and> protect_ok E"

text \<open>
  Two blocks of \<open>n\<close> bytes at \<open>b\<close> and \<open>c\<close> do not overlap, as ranges of the address
  space (addresses read as natural numbers).
\<close>

definition apart :: "size_t \<Rightarrow> addr \<Rightarrow> addr \<Rightarrow> bool" where
  "apart n b c \<longleftrightarrow> unat b + unat n \<le> unat c \<or> unat c + unat n \<le> unat b"

text \<open>
  \<open>fresh_block A E\<close>: what \<open>allocatePages\<close> would return during this call is null, or
  a block that ends below the top of the address space and overlaps none of the blocks
  the allocator owns. This is what a mapping call of the platform provides.
\<close>

definition fresh_block :: "CodeAllocator \<Rightarrow> env \<Rightarrow> bool" where
  "fresh_block A E \<longleftrightarrow>
     pages_ret E = 0 \<or>
     (unat (pages_ret E) + unat (blockSize A) < 2 ^ 64 \<and>
      (\<forall>b\<in>set (blocks A). apart (blockSize A) b (pages_ret E)))"

text \<open>
  \<open>platform_sound P cs A\<close>: along the sequence of calls \<open>cs\<close> started on \<open>A\<close>, the
  platform's answer in each call is a fresh block for the allocator as that call finds
  it.
\<close>

fun platform_sound :: "platform \<Rightarrow> (env \<times> request) list \<Rightarrow> CodeAllocator \<Rightarrow> bool" where
  "platform_sound P [] A = True"
| "platform_sound P ((E, R) # cs) A =
     (fresh_block A E \<and>
      (case allocate P E R A of
         Inl e \<Rightarrow> True
       | Inr (res, A1, ev) \<Rightarrow> platform_sound P cs A1))"

section \<open>Predicates of the non-overlap proof\<close>

text \<open>
  The shape of an allocator that the calls maintain: the block size exceeds the room
  kept for unwind data and is a multiple of the page size; the cursor is at or below
  the sentinel, a multiple of the page size below it; without a block both are equal;
  with blocks, the last one is the current one, the sentinel is its end and the cursor
  is inside it; every block ends below the top of the address space and no two overlap.
\<close>

definition well_formed :: "platform \<Rightarrow> CodeAllocator \<Rightarrow> bool" where
  "well_formed P A \<longleftrightarrow>
     unat (kMaxUnwindDataSize P) < unat (blockSize A) \<and>
     unat (kPageSize P) dvd unat (blockSize A) \<and>
     unat (blockPos A) \<le> unat (blockEnd A) \<and>
     unat (kPageSize P) dvd (unat (blockEnd A) - unat (blockPos A)) \<and>
     (blocks A = [] \<longrightarrow> blockEnd A = blockPos A) \<and>
     (blocks A \<noteq> [] \<longrightarrow>
        unat (blockEnd A) = unat (last (blocks A)) + unat (blockSize A) \<and>
        unat (last (blocks A)) \<le> unat (blockPos A)) \<and>
     (\<forall>b\<in>set (blocks A). unat b + unat (blockSize A) < 2 ^ 64) \<and>
     (\<forall>b\<in>set (blocks A). \<forall>c\<in>set (blocks A). b \<noteq> c \<longrightarrow> apart (blockSize A) b c)"

text \<open>
  The end of the part of block \<open>b\<close> that has been handed out: the cursor for the current
  block, the end of the block for the others.
\<close>

definition limit :: "CodeAllocator \<Rightarrow> addr \<Rightarrow> nat" where
  "limit A b = (if b = last (blocks A) then unat (blockPos A)
                else unat b + unat (blockSize A))"

text \<open>
  A request and what \<open>allocate\<close> returned for it: a returned range that is not empty
  lies in the handed-out part of an owned block, and the code of the request is the end
  of the range (for sizes whose sum does not wrap around).
\<close>

definition placed :: "CodeAllocator \<Rightarrow> request \<times> (addr \<times> size_t \<times> addr) option \<Rightarrow> bool" where
  "placed A x =
     (case x of
        (R, None) \<Rightarrow> True
      | (R, Some (r, s, c)) \<Rightarrow>
          s = 0 \<or>
          ((unat (roundUp16 (dataSize R)) + unat (codeSize R) < 2 ^ 64 \<longrightarrow>
              unat r \<le> unat c \<and> unat c + unat (codeSize R) = unat r + unat s) \<and>
           (\<exists>b\<in>set (blocks A). unat b \<le> unat r \<and> unat r + unat s \<le> limit A b)))"

text \<open>
  Two results of \<open>allocate\<close> do not overlap: one of the calls failed, or one of the
  ranges \<open>[result, result + resultSize)\<close> is empty, or one ends before the other starts.
\<close>

definition disjoint_results ::
  "(addr \<times> size_t \<times> addr) option \<Rightarrow> (addr \<times> size_t \<times> addr) option \<Rightarrow> bool" where
  "disjoint_results x y =
     (case (x, y) of
        (Some (r1, s1, c1), Some (r2, s2, c2)) \<Rightarrow>
          s1 = 0 \<or> s2 = 0 \<or> unat r1 + unat s1 \<le> unat r2 \<or> unat r2 + unat s2 \<le> unat r1
      | _ \<Rightarrow> True)"

section \<open>Basic facts\<close>

lemma fresh_S: "fresh S_platform 16384 65536 0 h h = Inr (S_allocator h)"
  by (simp add: fresh_def S_platform_def S_allocator_def)

lemmas alloc_defs = allocate_def allocateNewBlock_def publish_def makePagesExecutable_def
  alignToPageSize_def Let_def

lemmas S_defs = S_platform_def S_allocator_def S_env_def S_request_def S_full_def

lemma four_full_blocks:
  "run S_platform
     [(S_env 65536 0 0, S_request 0 16000), (S_env 131072 0 0, S_request 0 16000),
      (S_env 196608 0 0, S_request 0 16000), (S_env 262144 0 0, S_request 0 16000)]
     (S_allocator False) =
   Inr (S_full,
        [Some (65536, 16000, 65536), Some (131072, 16000, 131072),
         Some (196608, 16000, 196608), Some (262144, 16000, 262144)])"
  by (simp add: alloc_defs S_defs)

text \<open>
  The first request on the allocator of the scenarios with the callbacks set, where the
  create callback reports 40 bytes: the prelude takes 48 bytes of the new block.
\<close>

lemma first_request_with_hook:
  "allocate S_platform (S_env 65536 7 40) (S_request 3 1) (S_allocator True) =
   Inr (Some (65584, 17, 65600),
        S_allocator True \<lparr>blockPos := 69632, blockEnd := 81920, blocks := [65536],
          unwindInfos := [7]\<rparr>,
        [AllocatePages 16384 65536, CreateBlockUnwindInfo 0 65536 16384,
         Memcpy 65597 8192 3, Memcpy 65600 12288 1,
         MakePagesExecutable 65536 4096, FlushInstructionCache 65600 1])"
  by (simp add: alloc_defs S_defs)

text \<open>Scenario S2: the second request, after the first has taken one page.\<close>

lemma scenario_S2:
  "allocate S_platform (S_env 131072 0 0) (S_request 3 1)
     (S_allocator False \<lparr>blockPos := 69632, blockEnd := 81920, blocks := [65536]\<rparr>) =
   Inr (Some (69632, 17, 69648),
        S_allocator False \<lparr>blockPos := 73728, blockEnd := 81920, blocks := [65536]\<rparr>,
        [Memcpy 69645 8192 3, Memcpy 69648 12288 1,
         MakePagesExecutable 69632 4096, FlushInstructionCache 69648 1])"
  by (simp add: alloc_defs S_defs)

text \<open>
  Three requests on the allocator of the scenarios: two share the first block, the third
  takes a second block.
\<close>

lemma three_requests:
  "run S_platform
     [(S_env 65536 0 0, S_request 0 17), (S_env 131072 0 0, S_request 3 1),
      (S_env 131072 0 0, S_request 0 16000)]
     (S_allocator False) =
   Inr (S_allocator False \<lparr>blockPos := 147456, blockEnd := 147456,
          blocks := [65536, 131072]\<rparr>,
        [Some (65536, 17, 65536), Some (69632, 17, 69648), Some (131072, 16000, 131072)])"
  by (simp add: alloc_defs S_defs)

lemma three_requests_sound:
  "platform_sound S_platform
     [(S_env 65536 0 0, S_request 0 17), (S_env 131072 0 0, S_request 3 1),
      (S_env 131072 0 0, S_request 0 16000)]
     (S_allocator False)"
  by (simp add: alloc_defs S_defs fresh_block_def apart_def)

text \<open>
  What a returning call of each function has done, branch by branch. The later proofs
  use these instead of unfolding the definitions.
\<close>

lemma allocateNewBlock_Inr:
  assumes "allocateNewBlock P E u A = Inr (ok, u', A', ev)"
  shows "(A' = A \<and> \<not> ok \<and> u' = u \<and>
            (if (word_of_nat (length (blocks A)) + 1) * blockSize A > maxTotalSize A
             then ev = [] else pages_ret E = 0 \<and> ev = [AllocatePages (blockSize A) 0])) \<or>
         (\<not> (word_of_nat (length (blocks A)) + 1) * blockSize A > maxTotalSize A \<and>
          pages_ret E \<noteq> 0 \<and>
          (if createBlockUnwindInfo A
           then u' = roundUp16 (create_size E) \<and> u' \<le> kMaxUnwindDataSize P \<and>
                ok = (create_ret E \<noteq> 0) \<and>
                ev = [AllocatePages (blockSize A) (pages_ret E),
                      CreateBlockUnwindInfo (context' A) (pages_ret E) (blockSize A)]
           else u' = u \<and> ok \<and> ev = [AllocatePages (blockSize A) (pages_ret E)]) \<and>
          A' = A\<lparr>blockPos := pages_ret E, blockEnd := pages_ret E + blockSize A,
                 blocks := blocks A @ [pages_ret E],
                 unwindInfos := (if createBlockUnwindInfo A \<and> create_ret E \<noteq> 0
                                 then unwindInfos A @ [create_ret E] else unwindInfos A)\<rparr>)"
  using assms
  by (auto simp: allocateNewBlock_def Let_def roundUp16_def split: if_splits)

lemma publish_Inr:
  assumes "publish P E R u A ev = Inr (res, A', ev')"
  shows "res = Some (blockPos A + u, roundUp16 (dataSize R) + codeSize R,
                     blockPos A + (u + roundUp16 (dataSize R))) \<and>
         A' = A\<lparr>blockPos := blockPos A + alignToPageSize P (u + (roundUp16 (dataSize R) + codeSize R))\<rparr> \<and>
         blockPos A AND (kPageSize P - 1) = 0 \<and>
         blockPos A' AND (kPageSize P - 1) = 0 \<and>
         protect_ok E \<and>
         ev' = ev @
           (if dataSize R \<noteq> 0
            then [Memcpy (blockPos A + (u + roundUp16 (dataSize R) - dataSize R)) (data R) (dataSize R)]
            else []) @
           (if codeSize R \<noteq> 0
            then [Memcpy (blockPos A + (u + roundUp16 (dataSize R))) (code R) (codeSize R)]
            else []) @
           [MakePagesExecutable (blockPos A) (alignToPageSize P (u + (roundUp16 (dataSize R) + codeSize R))),
            FlushInstructionCache (blockPos A + (u + roundUp16 (dataSize R))) (codeSize R)]"
  using assms
  by (auto simp: publish_def makePagesExecutable_def Let_def roundUp16_def split: if_splits sum.splits)

lemma allocate_Inr:
  assumes "allocate P E R A = Inr (res, A', ev)"
  shows "(roundUp16 (dataSize R) + codeSize R > blockSize A - kMaxUnwindDataSize P \<and>
            res = None \<and> A' = A \<and> ev = []) \<or>
         (roundUp16 (dataSize R) + codeSize R \<le> blockSize A - kMaxUnwindDataSize P \<and>
          roundUp16 (dataSize R) + codeSize R \<le> blockEnd A - blockPos A \<and>
          publish P E R 0 A [] = Inr (res, A', ev)) \<or>
         (roundUp16 (dataSize R) + codeSize R \<le> blockSize A - kMaxUnwindDataSize P \<and>
          roundUp16 (dataSize R) + codeSize R > blockEnd A - blockPos A \<and>
          (\<exists>ok u A1 ev1. allocateNewBlock P E 0 A = Inr (ok, u, A1, ev1) \<and>
             (if ok then roundUp16 (dataSize R) + codeSize R \<le> blockEnd A1 - blockPos A1 \<and>
                         publish P E R u A1 ev1 = Inr (res, A', ev)
              else res = None \<and> A' = A1 \<and> ev = ev1)))"
  using assms
  by (auto simp: allocate_def Let_def roundUp16_def split: if_splits sum.splits)

lemma allocateNewBlock_config:
  assumes "allocateNewBlock P E u A = Inr (ok, u', A', ev)"
  shows "blockSize A' = blockSize A \<and> maxTotalSize A' = maxTotalSize A \<and>
         context' A' = context' A \<and> createBlockUnwindInfo A' = createBlockUnwindInfo A \<and>
         destroyBlockUnwindInfo A' = destroyBlockUnwindInfo A"
  using allocateNewBlock_Inr [OF assms] by auto

lemma publish_config:
  assumes "publish P E R u A ev = Inr (res, A', ev')"
  shows "blockSize A' = blockSize A \<and> maxTotalSize A' = maxTotalSize A \<and>
         context' A' = context' A \<and> createBlockUnwindInfo A' = createBlockUnwindInfo A \<and>
         destroyBlockUnwindInfo A' = destroyBlockUnwindInfo A \<and>
         blocks A' = blocks A \<and> unwindInfos A' = unwindInfos A \<and> blockEnd A' = blockEnd A"
  using publish_Inr [OF assms] by auto

lemma allocate_config:
  assumes "allocate P E R A = Inr (res, A', ev)"
  shows "blockSize A' = blockSize A \<and> maxTotalSize A' = maxTotalSize A \<and>
         context' A' = context' A \<and> createBlockUnwindInfo A' = createBlockUnwindInfo A \<and>
         destroyBlockUnwindInfo A' = destroyBlockUnwindInfo A"
  using allocate_Inr [OF assms]
  by (auto split: if_splits dest!: publish_config allocateNewBlock_config)

lemma run_config:
  "run P cs A = Inr (A', rs) \<Longrightarrow>
   blockSize A' = blockSize A \<and> maxTotalSize A' = maxTotalSize A \<and>
         context' A' = context' A \<and> createBlockUnwindInfo A' = createBlockUnwindInfo A \<and>
         destroyBlockUnwindInfo A' = destroyBlockUnwindInfo A"
proof (induction cs arbitrary: A rs)
  case Nil
  then show ?case by simp
next
  case (Cons c cs)
  obtain E R where c: "c = (E, R)" by (cases c)
  from Cons.prems c obtain res A1 ev rs1 where
    1: "allocate P E R A = Inr (res, A1, ev)" and 2: "run P cs A1 = Inr (A', rs1)"
    by (auto split: sum.splits)
  from allocate_config [OF 1] Cons.IH [OF 2] show ?case by simp
qed

lemma allocate_cases [consumes 1, case_names oversize fits rejected reserved]:
  assumes "allocate P E R A = Inr (res, A', ev)"
  obtains
    "roundUp16 (dataSize R) + codeSize R > blockSize A - kMaxUnwindDataSize P"
      "res = None" "A' = A" "ev = []"
  | "roundUp16 (dataSize R) + codeSize R \<le> blockSize A - kMaxUnwindDataSize P"
      "roundUp16 (dataSize R) + codeSize R \<le> blockEnd A - blockPos A"
      "publish P E R 0 A [] = Inr (res, A', ev)"
  | u where
      "roundUp16 (dataSize R) + codeSize R \<le> blockSize A - kMaxUnwindDataSize P"
      "roundUp16 (dataSize R) + codeSize R > blockEnd A - blockPos A"
      "allocateNewBlock P E 0 A = Inr (False, u, A', ev)" "res = None"
  | u A1 ev1 where
      "roundUp16 (dataSize R) + codeSize R \<le> blockSize A - kMaxUnwindDataSize P"
      "roundUp16 (dataSize R) + codeSize R > blockEnd A - blockPos A"
      "allocateNewBlock P E 0 A = Inr (True, u, A1, ev1)"
      "roundUp16 (dataSize R) + codeSize R \<le> blockEnd A1 - blockPos A1"
      "publish P E R u A1 ev1 = Inr (res, A', ev)"
  using allocate_Inr [OF assms]
  apply (elim disjE exE conjE)
  subgoal by blast
  subgoal by blast
  subgoal for ok u A1 ev1 by (cases ok) simp_all
  done

lemma allocateNewBlock_cases [consumes 1, case_names capped no_pages reserved]:
  assumes "allocateNewBlock P E u A = Inr (ok, u', A', ev)"
  obtains
    "(word_of_nat (length (blocks A)) + 1) * blockSize A > maxTotalSize A"
      "\<not> ok" "u' = u" "A' = A" "ev = []"
  | "\<not> (word_of_nat (length (blocks A)) + 1) * blockSize A > maxTotalSize A"
      "pages_ret E = 0" "\<not> ok" "u' = u" "A' = A" "ev = [AllocatePages (blockSize A) 0]"
  | "\<not> (word_of_nat (length (blocks A)) + 1) * blockSize A > maxTotalSize A"
      "pages_ret E \<noteq> 0"
      "A' = A\<lparr>blockPos := pages_ret E, blockEnd := pages_ret E + blockSize A,
                 blocks := blocks A @ [pages_ret E],
                 unwindInfos := (if createBlockUnwindInfo A \<and> create_ret E \<noteq> 0
                                 then unwindInfos A @ [create_ret E] else unwindInfos A)\<rparr>"
      "u' = (if createBlockUnwindInfo A then roundUp16 (create_size E) else u)"
      "u' \<le> kMaxUnwindDataSize P \<or> \<not> createBlockUnwindInfo A"
      "ok = (createBlockUnwindInfo A \<longrightarrow> create_ret E \<noteq> 0)"
  using allocateNewBlock_Inr [OF assms] by (auto split: if_splits)

lemma run_invariant:
  assumes "run P cs A = Inr (A', rs)" and "I A"
    and step: "\<And>E R A res A1 ev. I A \<Longrightarrow> allocate P E R A = Inr (res, A1, ev) \<Longrightarrow> I A1"
  shows "I A'"
  using assms(1,2)
proof (induction cs arbitrary: A rs)
  case Nil
  then show ?case by simp
next
  case (Cons c cs)
  obtain E R where c: "c = (E, R)" by (cases c)
  from Cons.prems(1) c obtain res A1 ev rs1 where
    1: "allocate P E R A = Inr (res, A1, ev)" and 2: "run P cs A1 = Inr (A', rs1)"
    by (auto split: sum.splits)
  from step [OF Cons.prems(2) 1] have "I A1" .
  from Cons.IH [OF 2 this] show ?case .
qed

lemma run_length: "run P cs A = Inr (A', rs) \<Longrightarrow> length rs = length cs"
proof (induction cs arbitrary: A rs)
  case Nil
  then show ?case by simp
next
  case (Cons c cs)
  obtain E R where c: "c = (E, R)" by (cases c)
  from Cons.prems c obtain res A1 ev rs1 where
    1: "allocate P E R A = Inr (res, A1, ev)" and 2: "run P cs A1 = Inr (A', rs1)"
    and 3: "rs = res # rs1"
    by (auto split: sum.splits)
  from Cons.IH [OF 2] 3 show ?case by simp
qed

section \<open>Arithmetic of sizes and addresses\<close>

lemma unat_of_nat_plus1: "Suc n < 2 ^ 64 \<Longrightarrow> unat (word_of_nat n + 1 :: 64 word) = n + 1"
proof -
  assume a: "Suc n < 2 ^ 64"
  have "(word_of_nat n + 1 :: 64 word) = word_of_nat (Suc n)" by simp
  then have "unat (word_of_nat n + 1 :: 64 word) = Suc n mod 2 ^ 64"
    by (simp only: unat_of_nat) simp
  with a show ?thesis by simp
qed

lemma unat_mult_no_wrap: "unat (x::64 word) * unat (B::64 word) < 2 ^ 64 \<Longrightarrow> unat (x * B) = unat x * unat B"
  using unat_mult_lem [of x B] by simp

lemma cap_check_nat:
  fixes B M :: "64 word"
  assumes "n * unat B \<le> unat M" and "unat M + unat B < 2 ^ 64"
  shows "unat ((word_of_nat n + 1) * B) = (n + 1) * unat B"
proof (cases "B = 0")
  case True
  then show ?thesis by simp
next
  case False
  then have B: "1 \<le> unat B" by (simp add: unat_gt_0 Suc_le_eq)
  have "n * 1 \<le> n * unat B" using B by (rule mult_le_mono2)
  then have "n \<le> n * unat B" by simp
  with assms B have n: "Suc n < 2 ^ 64" by linarith
  have "(n + 1) * unat B = n * unat B + unat B" by simp
  with assms have nB: "(n + 1) * unat B < 2 ^ 64" by linarith
  have x: "unat (word_of_nat n + 1 :: 64 word) = n + 1"
    using n by (rule unat_of_nat_plus1)
  show ?thesis using nB unat_mult_no_wrap [of "word_of_nat n + 1" B] by (simp only: x)
qed

text \<open>Alignment: the low bits of a sum of aligned words are zero.\<close>

lemma mask12: "(4095 :: 64 word) = mask 12"
  by (simp add: mask_eq_exp_minus_1)

lemma aligned_iff_dvd: "(w :: 64 word) AND mask k = 0 \<longleftrightarrow> 2 ^ k dvd w"
  by (simp flip: take_bit_eq_mask add: take_bit_eq_0_iff)

lemma aligned_add:
  "(a :: 64 word) AND mask k = 0 \<Longrightarrow> c AND mask k = 0 \<Longrightarrow> (a + c) AND mask k = 0"
  by (simp add: aligned_iff_dvd)

lemma aligned_4096_iff: "(w :: 64 word) AND 4095 = 0 \<longleftrightarrow> 4096 dvd w"
  using aligned_iff_dvd [of w 12] by (simp add: mask_eq_exp_minus_1)

lemma aligned_4096:
  assumes "(b :: 64 word) AND 4095 = 0"
  shows "(b + 4096) AND 4095 = 0" "(b + 8192) AND 4095 = 0"
    "(b + 12288) AND 4095 = 0" "(b + 16384) AND 4095 = 0"
proof -
  have "(4096 :: 64 word) dvd 4096 * 1" "(4096 :: 64 word) dvd 4096 * 2"
    "(4096 :: 64 word) dvd 4096 * 3" "(4096 :: 64 word) dvd 4096 * 4"
    by (rule dvd_triv_left)+
  then have "(4096 :: 64 word) dvd 4096" "(4096 :: 64 word) dvd 8192"
    "(4096 :: 64 word) dvd 12288" "(4096 :: 64 word) dvd 16384"
    by simp_all
  with assms show "(b + 4096) AND 4095 = 0" "(b + 8192) AND 4095 = 0"
    "(b + 12288) AND 4095 = 0" "(b + 16384) AND 4095 = 0"
    by (simp_all only: aligned_4096_iff dvd_add)
qed

lemma mask4: "(15 :: 64 word) = mask 4"
  by (simp add: mask_eq_exp_minus_1)

lemma roundUp16_aligned: "roundUp16 x AND 15 = 0"
  by (simp add: roundUp16_def and.assoc)

lemma aligned16_add:
  "(a :: 64 word) AND 15 = 0 \<Longrightarrow> c AND 15 = 0 \<Longrightarrow> (a + c) AND 15 = 0"
  unfolding mask4 by (rule aligned_add)

lemma aligned16_iff_mod: "(w :: 64 word) AND 15 = 0 \<longleftrightarrow> unat w mod 16 = 0"
  using and_mask_dvd_nat [of 4 w] by (simp add: mask4 [symmetric] dvd_eq_mod_eq_0)

lemma page_mask_covers_16:
  assumes "(k :: 64 word) AND 15 = 0"
  shows "(k - 1) AND 15 = 15"
proof (cases "k = 0")
  case True
  then show ?thesis by simp
next
  case False
  from assms have "unat k mod 16 = 0"
    by (simp add: aligned16_iff_mod)
  moreover have "unat k \<noteq> 0"
    using False by (simp add: unat_eq_0)
  ultimately obtain q where "unat k = 16 * Suc q"
    by (metis mod_eq_0_iff_dvd dvd_def mult_0_right not0_implies_Suc)
  then have "unat k - 1 = 16 * q + 15"
    by simp
  then have "(unat k - 1) mod 16 = 15"
    by simp
  then have "unat (k - 1) mod 16 = 15"
    by (simp add: unat_minus_one False)
  then have "unat (take_bit 4 (k - 1)) = unat (15 :: 64 word)"
    by (simp add: take_bit_eq_mod unat_mod)
  then have "take_bit 4 (k - 1) = 15"
    by (rule word_unat_eq_iff [THEN iffD2])
  then show ?thesis
    by (simp add: take_bit_eq_mask mask4 [symmetric])
qed

lemma page_aligned_is_16_aligned:
  assumes "kPageSize P AND 15 = 0" and "(x :: 64 word) AND (kPageSize P - 1) = 0"
  shows "x AND 15 = 0"
proof -
  have "x AND 15 = x AND ((kPageSize P - 1) AND 15)"
    by (simp only: page_mask_covers_16 [OF assms(1)])
  also have "\<dots> = (x AND (kPageSize P - 1)) AND 15"
    by (simp only: and.assoc)
  also have "\<dots> = 0"
    by (simp add: assms(2))
  finally show ?thesis .
qed

text \<open>Rounding up to the page size, as a fact about natural numbers.\<close>

lemma round_up_nat:
  fixes n p y :: nat
  assumes "0 < p" and "n \<le> y" and "p dvd y"
  shows "n \<le> (n + p - 1) - (n + p - 1) mod p"
    and "(n + p - 1) - (n + p - 1) mod p \<le> y"
    and "p dvd (n + p - 1) - (n + p - 1) mod p"
proof -
  let ?m = "n + p - 1"
  have "?m mod p < p" using assms(1) by simp
  then show "n \<le> ?m - ?m mod p" by linarith
  from assms(3) obtain q where y: "y = p * q" by (auto simp: dvd_def)
  have "?m < p * (q + 1)" using assms(1,2) y by simp
  then have "?m div p < q + 1"
    by (simp add: div_less_iff_less_mult assms(1) mult.commute)
  then have "?m div p * p \<le> q * p" by simp
  then show "?m - ?m mod p \<le> y"
    by (simp add: minus_mod_eq_div_mult y mult.commute)
  show "p dvd ?m - ?m mod p"
    by (simp add: minus_mod_eq_div_mult)
qed

lemma and_not_mask_minus:
  fixes w :: "64 word"
  shows "w AND NOT (mask n) = w - take_bit n w"
proof -
  have "w AND NOT (mask n) = push_bit n (drop_bit n w)"
    by (rule bit_eqI) (auto simp add: bit_simps)
  then show ?thesis
    using bits_ident [of n w] by (simp add: algebra_simps)
qed

lemma unat_and_not_mask:
  fixes w :: "64 word"
  shows "unat (w AND NOT (mask n)) = unat w - unat w mod 2 ^ n"
proof -
  have "take_bit n w \<le> w"
    by (simp add: take_bit_eq_mask word_and_le2)
  then have "unat (w - take_bit n w) = unat w - unat (take_bit n w)"
    by (rule unat_sub)
  moreover have "unat (take_bit n w) = take_bit n (unat w)"
    by (rule unsigned_take_bit_eq)
  moreover have "take_bit n (unat w) = unat w mod 2 ^ n"
    by (rule take_bit_eq_mod)
  ultimately show ?thesis
    by (simp only: and_not_mask_minus)
qed

lemma unat_pow2:
  assumes "k < 64"
  shows "unat (2 ^ k :: 64 word) = 2 ^ k"
proof -
  have lt: "(2 :: nat) ^ k < 2 ^ 64"
    using assms by (simp only: power_strict_increasing_iff rel_simps)
  have "(2 ^ k :: 64 word) = word_of_nat (2 ^ k)"
    by simp
  then have "unat (2 ^ k :: 64 word) = 2 ^ k mod 2 ^ 64"
    by (simp only: unat_of_nat) simp
  with lt show ?thesis by simp
qed

lemma unat_mask:
  assumes "k < 64"
  shows "unat (mask k :: 64 word) = 2 ^ k - 1"
proof -
  have "(2 ^ k :: 64 word) \<noteq> 0"
    using unat_pow2 [OF assms] by (metis power_not_zero unat_0 zero_neq_numeral)
  then have "unat (2 ^ k - 1 :: 64 word) = unat (2 ^ k :: 64 word) - 1"
    by (rule unat_minus_one)
  then show ?thesis
    by (simp only: mask_eq_exp_minus_1 unat_pow2 [OF assms])
qed

lemma unat_alignToPageSize:
  assumes "kPageSize P = 2 ^ k" and "k < 64" and "unat x + 2 ^ k - 1 < 2 ^ 64"
  shows "unat (alignToPageSize P x) = (unat x + 2 ^ k - 1) - (unat x + 2 ^ k - 1) mod 2 ^ k"
proof -
  have m: "kPageSize P - 1 = mask k"
    by (simp add: assms(1) mask_eq_exp_minus_1)
  have um: "unat (mask k :: 64 word) = 2 ^ k - 1"
    using assms(2) by (rule unat_mask)
  have "x + kPageSize P - 1 = x + (kPageSize P - 1)"
    by simp
  then have a: "alignToPageSize P x = (x + mask k) AND NOT (mask k)"
    by (simp only: alignToPageSize_def m)
  have "unat x + unat (mask k :: 64 word) < 2 ^ LENGTH(64)"
    using assms(3) um by simp
  then have "unat (x + mask k) = unat x + unat (mask k :: 64 word)"
    by (simp only: unat_add_lem)
  then have "unat (x + mask k) = unat x + 2 ^ k - 1"
    using um by simp
  then show ?thesis
    by (simp only: a unat_and_not_mask)
qed

lemma pageSize_bounds:
  assumes "kPageSize P = 2 ^ k" and "k < 64" and "unat x \<le> y"
    and "unat (kPageSize P) dvd y" and "y < 2 ^ 64"
  shows "unat x \<le> unat (alignToPageSize P x)"
    and "unat (alignToPageSize P x) \<le> y"
    and "unat (kPageSize P) dvd unat (alignToPageSize P x)"
proof -
  let ?p = "(2 :: nat) ^ k"
  have p: "unat (kPageSize P) = ?p"
    by (simp only: assms(1) unat_pow2 [OF assms(2)])
  have p0: "0 < ?p" by simp
  from assms(4) p obtain q where y: "y = ?p * q" by (auto simp: dvd_def)
  have "(2 :: nat) ^ 64 = ?p * 2 ^ (64 - k)"
    using assms(2) by (simp flip: power_add)
  with assms(5) y have "?p * q < ?p * 2 ^ (64 - k)" by simp
  then have "q < 2 ^ (64 - k)" by simp
  then have "q + 1 \<le> 2 ^ (64 - k)" by simp
  then have "?p * (q + 1) \<le> ?p * 2 ^ (64 - k)" by (rule mult_le_mono2)
  then have "?p * (q + 1) \<le> 2 ^ 64"
    using \<open>(2 :: nat) ^ 64 = ?p * 2 ^ (64 - k)\<close> by simp
  moreover have "unat x + ?p - 1 < ?p * (q + 1)"
  proof -
    have "?p * (q + 1) = ?p * q + ?p" by simp
    moreover have "unat x + ?p - 1 < ?p * q + ?p"
      using assms(3) y p0 by linarith
    ultimately show ?thesis by simp
  qed
  ultimately have nw: "unat x + ?p - 1 < 2 ^ 64" by linarith
  note u = unat_alignToPageSize [OF assms(1,2) nw]
  from assms(4) have d: "?p dvd y" by (simp only: p)
  show "unat x \<le> unat (alignToPageSize P x)"
    unfolding u by (rule round_up_nat(1) [OF p0 assms(3) d])
  show "unat (alignToPageSize P x) \<le> y"
    unfolding u by (rule round_up_nat(2) [OF p0 assms(3) d])
  show "unat (kPageSize P) dvd unat (alignToPageSize P x)"
    unfolding u p by (rule round_up_nat(3) [OF p0 assms(3) d])
qed

text \<open>\<open>roundUp16\<close> is rounding up to a multiple of 16 when \<open>x + 15\<close> does not wrap around.\<close>

lemma unat_roundUp16:
  assumes "unat x + 15 < 2 ^ 64"
  shows "unat (roundUp16 x) = (unat x + 15) div 16 * 16"
proof -
  have "unat x + unat (15 :: 64 word) < 2 ^ LENGTH(64)"
    using assms by simp
  then have "unat (x + 15) = unat x + unat (15 :: 64 word)"
    by (simp only: unat_add_lem)
  then have "unat (x + 15) = unat x + 15"
    by simp
  moreover have "unat ((x + 15) AND NOT (mask 4)) = unat (x + 15) - unat (x + 15) mod 2 ^ 4"
    by (rule unat_and_not_mask)
  ultimately have "unat (roundUp16 x) = (unat x + 15) - (unat x + 15) mod 16"
    by (simp add: roundUp16_def mask4)
  then show ?thesis
    by (simp add: minus_mod_eq_div_mult)
qed

section \<open>A create callback that returns null\<close>

text \<open>
  A call that returns \<open>false\<close> leaves the allocator as it was, unless it reserved a
  block for which the create callback returned null.
\<close>

lemma failed_call_state:
  assumes "allocate P E R A = Inr (None, A', ev)"
  shows "A' = A \<or>
         (createBlockUnwindInfo A \<and> pages_ret E \<noteq> 0 \<and> create_ret E = 0 \<and>
          A' = A\<lparr>blockPos := pages_ret E, blockEnd := pages_ret E + blockSize A,
                 blocks := blocks A @ [pages_ret E]\<rparr>)"
  using assms
proof (cases rule: allocate_cases)
  case oversize
  then show ?thesis by simp
next
  case fits
  from publish_Inr [OF fits(3)] show ?thesis by simp
next
  case (rejected u)
  from rejected(3) show ?thesis
    by (cases rule: allocateNewBlock_cases) auto
next
  case (reserved u A1 ev1)
  from publish_Inr [OF reserved(5)] show ?thesis by simp
qed

text \<open>
  C1. A call that returns \<open>false\<close> should leave \<open>blockPos\<close>, \<open>blockEnd\<close>, \<open>blocks\<close> and
  \<open>unwindInfos\<close> as they were. \<open>allocateNewBlock\<close> assigns the cursor and appends to
  \<open>blocks\<close> before it asks the create callback, and returns \<open>false\<close> without undoing
  either when the callback answers null. Here the allocator of the scenarios, with the
  callbacks set, gets its first request; the platform hands out the block at 65536 and
  the callback returns null: the call returns \<open>false\<close>, and the cursor, the sentinel and
  \<open>blocks\<close> have changed.
\<close>

theorem failed_unwind_hook_keeps_new_block:
  "allocate S_platform \<lparr>pages_ret = 65536, create_ret = 0, create_size = 40, protect_ok = True\<rparr>
     \<lparr>data = 0, dataSize = 0, code = 4096, codeSize = 17\<rparr> (S_allocator True) =
   Inr (None,
        S_allocator True \<lparr>blockPos := 65536, blockEnd := 81920, blocks := [65536]\<rparr>,
        [AllocatePages 16384 65536, CreateBlockUnwindInfo 0 65536 16384])"
  by (simp add: alloc_defs S_allocator_def S_platform_def)

text \<open>
  What does hold of the two sequences: there are never more handles than blocks, and no
  handle without a create callback.
\<close>

lemma allocate_unwindInfos:
  assumes "allocate P E R A = Inr (res, A', ev)"
    and "length (unwindInfos A) \<le> length (blocks A)"
    and "\<not> createBlockUnwindInfo A \<longrightarrow> unwindInfos A = []"
  shows "length (unwindInfos A') \<le> length (blocks A') \<and>
         (\<not> createBlockUnwindInfo A' \<longrightarrow> unwindInfos A' = [])"
  using assms(1)
proof (cases rule: allocate_cases)
  case oversize
  with assms(2,3) show ?thesis by simp
next
  case fits
  from publish_config [OF fits(3)] assms(2,3) show ?thesis by simp
next
  case (rejected u)
  from rejected(3) assms(2,3) show ?thesis
    by (cases rule: allocateNewBlock_cases) auto
next
  case (reserved u A1 ev1)
  from reserved(3) assms(2,3) have "length (unwindInfos A1) \<le> length (blocks A1) \<and>
         (\<not> createBlockUnwindInfo A1 \<longrightarrow> unwindInfos A1 = [])"
    by (cases rule: allocateNewBlock_cases) auto
  with publish_config [OF reserved(5)] show ?thesis by simp
qed

text \<open>
  C2. \<open>unwindInfos.size()\<close> should be 0 or \<open>blocks.size()\<close>, and non-zero exactly when
  the callbacks are set and a block exists. With the callbacks set, a first request
  fills the first block; the second needs a new block, for which the create callback
  returns null. The block stays in \<open>blocks\<close> with no handle for it: two blocks, one
  handle.
\<close>

theorem unwindInfos_lag_behind_blocks:
  "run S_platform
     [(\<lparr>pages_ret = 65536, create_ret = 7, create_size = 40, protect_ok = True\<rparr>,
       \<lparr>data = 0, dataSize = 0, code = 4096, codeSize = 16000\<rparr>),
      (\<lparr>pages_ret = 131072, create_ret = 0, create_size = 40, protect_ok = True\<rparr>,
       \<lparr>data = 0, dataSize = 0, code = 4096, codeSize = 16000\<rparr>)]
     (S_allocator True) =
   Inr (S_allocator True \<lparr>blockPos := 131072, blockEnd := 147456,
          blocks := [65536, 131072], unwindInfos := [7]\<rparr>,
        [Some (65584, 16000, 65584), None])"
  by (simp add: alloc_defs S_allocator_def S_platform_def)

section \<open>Scenario S4: requests of one page each\<close>

text \<open>
  One request of the scenario on an allocator whose block is used up, and one on an
  allocator whose block has at least a page left.
\<close>

lemma S4_new:
  assumes A: "blockSize A = 16384" "maxTotalSize A = 65536" "\<not> createBlockUnwindInfo A"
      "blockEnd A = blockPos A" "length (blocks A) < 4"
    and E: "granted S_platform E"
  shows "allocate S_platform E (S_request 0 4096) A =
         Inr (Some (pages_ret E, 4096, pages_ret E),
              A\<lparr>blockPos := pages_ret E + 4096, blockEnd := pages_ret E + 16384,
                 blocks := blocks A @ [pages_ret E]\<rparr>,
              [AllocatePages 16384 (pages_ret E), Memcpy (pages_ret E) 12288 4096,
               MakePagesExecutable (pages_ret E) 4096,
               FlushInstructionCache (pages_ret E) 4096])"
proof -
  from E have b: "pages_ret E \<noteq> 0" "pages_ret E AND 4095 = 0" "protect_ok E"
    by (simp_all add: granted_def S_platform_def)
  from A(5) have "length (blocks A) = 0 \<or> length (blocks A) = 1 \<or>
      length (blocks A) = 2 \<or> length (blocks A) = 3" by arith
  then have cap: "\<not> (word_of_nat (length (blocks A)) + 1) * blockSize A > maxTotalSize A"
    using A(1,2) by auto
  show ?thesis
    using A(1-4) b cap aligned_4096(1) [OF b(2)]
    by (simp add: alloc_defs S_platform_def S_request_def)
qed

lemma S4_fit:
  assumes A: "blockSize A = 16384" "blockEnd A - blockPos A \<ge> 4096"
      "blockPos A AND 4095 = 0"
    and E: "protect_ok E"
  shows "allocate S_platform E (S_request 0 4096) A =
         Inr (Some (blockPos A, 4096, blockPos A),
              A\<lparr>blockPos := blockPos A + 4096\<rparr>,
              [Memcpy (blockPos A) 12288 4096,
               MakePagesExecutable (blockPos A) 4096,
               FlushInstructionCache (blockPos A) 4096])"
  using A E aligned_4096(1) [OF A(3)]
  by (simp add: alloc_defs S_platform_def S_request_def not_less)

lemma S4_block:
  assumes A: "blockSize A = 16384" "maxTotalSize A = 65536" "\<not> createBlockUnwindInfo A"
      "blockEnd A = blockPos A" "length (blocks A) < 4"
    and E: "granted S_platform E1" "granted S_platform E2" "granted S_platform E3"
      "granted S_platform E4"
  shows "run S_platform
           ((E1, S_request 0 4096) # (E2, S_request 0 4096) #
            (E3, S_request 0 4096) # (E4, S_request 0 4096) # cs) A =
         (case run S_platform cs
                 (A\<lparr>blockPos := pages_ret E1 + 16384, blockEnd := pages_ret E1 + 16384,
                    blocks := blocks A @ [pages_ret E1]\<rparr>) of
            Inl e \<Rightarrow> Inl e
          | Inr (A', rs) \<Rightarrow>
              Inr (A', Some (pages_ret E1, 4096, pages_ret E1) #
                       Some (pages_ret E1 + 4096, 4096, pages_ret E1 + 4096) #
                       Some (pages_ret E1 + 8192, 4096, pages_ret E1 + 8192) #
                       Some (pages_ret E1 + 12288, 4096, pages_ret E1 + 12288) # rs))"
proof -
  let ?b = "pages_ret E1"
  let ?A1 = "A\<lparr>blockPos := ?b + 4096, blockEnd := ?b + 16384, blocks := blocks A @ [?b]\<rparr>"
  let ?A2 = "A\<lparr>blockPos := ?b + 8192, blockEnd := ?b + 16384, blocks := blocks A @ [?b]\<rparr>"
  let ?A3 = "A\<lparr>blockPos := ?b + 12288, blockEnd := ?b + 16384, blocks := blocks A @ [?b]\<rparr>"
  let ?A4 = "A\<lparr>blockPos := ?b + 16384, blockEnd := ?b + 16384, blocks := blocks A @ [?b]\<rparr>"
  from E have p: "protect_ok E2" "protect_ok E3" "protect_ok E4"
    and b: "?b AND 4095 = 0"
    by (simp_all add: granted_def S_platform_def)
  note al = aligned_4096 [OF b]
  have 1: "allocate S_platform E1 (S_request 0 4096) A =
      Inr (Some (?b, 4096, ?b), ?A1,
           [AllocatePages 16384 ?b, Memcpy ?b 12288 4096,
            MakePagesExecutable ?b 4096, FlushInstructionCache ?b 4096])"
    by (rule S4_new [OF A E(1)])
  have 2: "allocate S_platform E2 (S_request 0 4096) ?A1 =
      Inr (Some (?b + 4096, 4096, ?b + 4096), ?A2,
           [Memcpy (?b + 4096) 12288 4096,
            MakePagesExecutable (?b + 4096) 4096, FlushInstructionCache (?b + 4096) 4096])"
    using S4_fit [of ?A1 E2] A(1) p(1) al(1) by simp
  have 3: "allocate S_platform E3 (S_request 0 4096) ?A2 =
      Inr (Some (?b + 8192, 4096, ?b + 8192), ?A3,
           [Memcpy (?b + 8192) 12288 4096,
            MakePagesExecutable (?b + 8192) 4096, FlushInstructionCache (?b + 8192) 4096])"
    using S4_fit [of ?A2 E3] A(1) p(2) al(2) by simp
  have 4: "allocate S_platform E4 (S_request 0 4096) ?A3 =
      Inr (Some (?b + 12288, 4096, ?b + 12288), ?A4,
           [Memcpy (?b + 12288) 12288 4096,
            MakePagesExecutable (?b + 12288) 4096, FlushInstructionCache (?b + 12288) 4096])"
    using S4_fit [of ?A3 E4] A(1) p(3) al(3) by simp
  show ?thesis
    by (simp only: run.simps 1 2 3 4 sum.case prod.case) (simp split: sum.splits)
qed

text \<open>
  C3, as stated: the first four requests of 4096 bytes each get a block of their own and
  the fifth fails. A block of four pages holds four such requests, so the first four
  share the first block and the fifth succeeds in a second block.
\<close>

theorem fifth_request_shares_second_block:
  "run S_platform
     [(S_env 65536 0 0, S_request 0 4096), (S_env 131072 0 0, S_request 0 4096),
      (S_env 131072 0 0, S_request 0 4096), (S_env 131072 0 0, S_request 0 4096),
      (S_env 131072 0 0, S_request 0 4096)]
     (S_allocator False) =
   Inr (S_allocator False \<lparr>blockPos := 135168, blockEnd := 147456, blocks := [65536, 131072]\<rparr>,
        [Some (65536, 4096, 65536), Some (69632, 4096, 69632), Some (73728, 4096, 73728),
         Some (77824, 4096, 77824), Some (131072, 4096, 131072)])"
  by (simp add: alloc_defs S_defs)

text \<open>
  C3, amended. With pages of 4096 bytes, blocks of four pages, 256 bytes kept for unwind
  data, a cap of sixteen pages and no callbacks, on a platform that grants every block
  and every protection change: of seventeen requests \<open>allocate(dataSize = 0,
  codeSize = 4096)\<close> the first sixteen succeed, four in each of four blocks, and the
  seventeenth returns \<open>false\<close> without asking for pages and without changing the
  allocator, since a fifth block would make \<open>5 * blockSize > maxTotalSize\<close>.
\<close>

theorem sixteen_requests_fill_four_blocks:
  assumes "\<forall>E\<in>set [E1, E2, E3, E4, E5, E6, E7, E8, E9, E10, E11, E12, E13, E14, E15, E16].
             granted S_platform E"
  shows "run S_platform
           [(E1, S_request 0 4096), (E2, S_request 0 4096), (E3, S_request 0 4096), (E4, S_request 0 4096), (E5, S_request 0 4096), (E6, S_request 0 4096), (E7, S_request 0 4096), (E8, S_request 0 4096), (E9, S_request 0 4096), (E10, S_request 0 4096), (E11, S_request 0 4096), (E12, S_request 0 4096), (E13, S_request 0 4096), (E14, S_request 0 4096), (E15, S_request 0 4096), (E16, S_request 0 4096), (E17, S_request 0 4096)]
           (S_allocator False) =
         Inr (S_allocator False \<lparr>blockPos := pages_ret E13 + 16384, blockEnd := pages_ret E13 + 16384,
            blocks := [pages_ret E1, pages_ret E5, pages_ret E9, pages_ret E13]\<rparr>,
         [Some (pages_ret E1, 4096, pages_ret E1),
          Some (pages_ret E1 + 4096, 4096, pages_ret E1 + 4096),
          Some (pages_ret E1 + 8192, 4096, pages_ret E1 + 8192),
          Some (pages_ret E1 + 12288, 4096, pages_ret E1 + 12288),
          Some (pages_ret E5, 4096, pages_ret E5),
          Some (pages_ret E5 + 4096, 4096, pages_ret E5 + 4096),
          Some (pages_ret E5 + 8192, 4096, pages_ret E5 + 8192),
          Some (pages_ret E5 + 12288, 4096, pages_ret E5 + 12288),
          Some (pages_ret E9, 4096, pages_ret E9),
          Some (pages_ret E9 + 4096, 4096, pages_ret E9 + 4096),
          Some (pages_ret E9 + 8192, 4096, pages_ret E9 + 8192),
          Some (pages_ret E9 + 12288, 4096, pages_ret E9 + 12288),
          Some (pages_ret E13, 4096, pages_ret E13),
          Some (pages_ret E13 + 4096, 4096, pages_ret E13 + 4096),
          Some (pages_ret E13 + 8192, 4096, pages_ret E13 + 8192),
          Some (pages_ret E13 + 12288, 4096, pages_ret E13 + 12288),
          None]) \<and>
         allocate S_platform E17 (S_request 0 4096)
           (S_allocator False \<lparr>blockPos := pages_ret E13 + 16384, blockEnd := pages_ret E13 + 16384,
            blocks := [pages_ret E1, pages_ret E5, pages_ret E9, pages_ret E13]\<rparr>) =
         Inr (None, S_allocator False \<lparr>blockPos := pages_ret E13 + 16384, blockEnd := pages_ret E13 + 16384,
            blocks := [pages_ret E1, pages_ret E5, pages_ret E9, pages_ret E13]\<rparr>, [])"
proof -
  from assms have g: "granted S_platform E1" "granted S_platform E2" "granted S_platform E3"
    "granted S_platform E4" "granted S_platform E5" "granted S_platform E6"
    "granted S_platform E7" "granted S_platform E8" "granted S_platform E9"
    "granted S_platform E10" "granted S_platform E11" "granted S_platform E12"
    "granted S_platform E13" "granted S_platform E14" "granted S_platform E15"
    "granted S_platform E16"
    by simp_all
  let ?A0 = "S_allocator False"
  let ?A1 = "?A0\<lparr>blockPos := pages_ret E1 + 16384, blockEnd := pages_ret E1 + 16384,
                 blocks := blocks ?A0 @ [pages_ret E1]\<rparr>"
  let ?A2 = "?A1\<lparr>blockPos := pages_ret E5 + 16384, blockEnd := pages_ret E5 + 16384,
                 blocks := blocks ?A1 @ [pages_ret E5]\<rparr>"
  let ?A3 = "?A2\<lparr>blockPos := pages_ret E9 + 16384, blockEnd := pages_ret E9 + 16384,
                 blocks := blocks ?A2 @ [pages_ret E9]\<rparr>"
  let ?A4 = "?A3\<lparr>blockPos := pages_ret E13 + 16384, blockEnd := pages_ret E13 + 16384,
                 blocks := blocks ?A3 @ [pages_ret E13]\<rparr>"
  have c0: "blockSize ?A0 = 16384" "maxTotalSize ?A0 = 65536" "\<not> createBlockUnwindInfo ?A0"
    "blockEnd ?A0 = blockPos ?A0" "length (blocks ?A0) < 4"
    by (simp_all add: S_allocator_def)
  have c1: "blockSize ?A1 = 16384" "maxTotalSize ?A1 = 65536" "\<not> createBlockUnwindInfo ?A1"
    "blockEnd ?A1 = blockPos ?A1" "length (blocks ?A1) < 4"
    by (simp_all add: S_allocator_def)
  have c2: "blockSize ?A2 = 16384" "maxTotalSize ?A2 = 65536" "\<not> createBlockUnwindInfo ?A2"
    "blockEnd ?A2 = blockPos ?A2" "length (blocks ?A2) < 4"
    by (simp_all add: S_allocator_def)
  have c3: "blockSize ?A3 = 16384" "maxTotalSize ?A3 = 65536" "\<not> createBlockUnwindInfo ?A3"
    "blockEnd ?A3 = blockPos ?A3" "length (blocks ?A3) < 4"
    by (simp_all add: S_allocator_def)
  have last: "allocate S_platform E17 (S_request 0 4096) ?A4 = Inr (None, ?A4, [])"
    by (simp add: alloc_defs S_defs)
  then have r4: "run S_platform [(E17, S_request 0 4096)] ?A4 = Inr (?A4, [None])"
    by simp
  have r3: "run S_platform [(E13, S_request 0 4096), (E14, S_request 0 4096), (E15, S_request 0 4096), (E16, S_request 0 4096), (E17, S_request 0 4096)] ?A3 =
      Inr (?A4,
         [Some (pages_ret E13, 4096, pages_ret E13),
          Some (pages_ret E13 + 4096, 4096, pages_ret E13 + 4096),
          Some (pages_ret E13 + 8192, 4096, pages_ret E13 + 8192),
          Some (pages_ret E13 + 12288, 4096, pages_ret E13 + 12288),
          None])"
    by (simp only: S4_block [OF c3 g(13-16)] r4 sum.case prod.case)
  have r2: "run S_platform [(E9, S_request 0 4096), (E10, S_request 0 4096), (E11, S_request 0 4096), (E12, S_request 0 4096), (E13, S_request 0 4096), (E14, S_request 0 4096), (E15, S_request 0 4096), (E16, S_request 0 4096), (E17, S_request 0 4096)] ?A2 =
      Inr (?A4,
         [Some (pages_ret E9, 4096, pages_ret E9),
          Some (pages_ret E9 + 4096, 4096, pages_ret E9 + 4096),
          Some (pages_ret E9 + 8192, 4096, pages_ret E9 + 8192),
          Some (pages_ret E9 + 12288, 4096, pages_ret E9 + 12288),
          Some (pages_ret E13, 4096, pages_ret E13),
          Some (pages_ret E13 + 4096, 4096, pages_ret E13 + 4096),
          Some (pages_ret E13 + 8192, 4096, pages_ret E13 + 8192),
          Some (pages_ret E13 + 12288, 4096, pages_ret E13 + 12288),
          None])"
    by (simp only: S4_block [OF c2 g(9-12)] r3 sum.case prod.case)
  have r1: "run S_platform [(E5, S_request 0 4096), (E6, S_request 0 4096), (E7, S_request 0 4096), (E8, S_request 0 4096), (E9, S_request 0 4096), (E10, S_request 0 4096), (E11, S_request 0 4096), (E12, S_request 0 4096), (E13, S_request 0 4096), (E14, S_request 0 4096), (E15, S_request 0 4096), (E16, S_request 0 4096), (E17, S_request 0 4096)] ?A1 =
      Inr (?A4,
         [Some (pages_ret E5, 4096, pages_ret E5),
          Some (pages_ret E5 + 4096, 4096, pages_ret E5 + 4096),
          Some (pages_ret E5 + 8192, 4096, pages_ret E5 + 8192),
          Some (pages_ret E5 + 12288, 4096, pages_ret E5 + 12288),
          Some (pages_ret E9, 4096, pages_ret E9),
          Some (pages_ret E9 + 4096, 4096, pages_ret E9 + 4096),
          Some (pages_ret E9 + 8192, 4096, pages_ret E9 + 8192),
          Some (pages_ret E9 + 12288, 4096, pages_ret E9 + 12288),
          Some (pages_ret E13, 4096, pages_ret E13),
          Some (pages_ret E13 + 4096, 4096, pages_ret E13 + 4096),
          Some (pages_ret E13 + 8192, 4096, pages_ret E13 + 8192),
          Some (pages_ret E13 + 12288, 4096, pages_ret E13 + 12288),
          None])"
    by (simp only: S4_block [OF c1 g(5-8)] r2 sum.case prod.case)
  have r0: "run S_platform [(E1, S_request 0 4096), (E2, S_request 0 4096), (E3, S_request 0 4096), (E4, S_request 0 4096), (E5, S_request 0 4096), (E6, S_request 0 4096), (E7, S_request 0 4096), (E8, S_request 0 4096), (E9, S_request 0 4096), (E10, S_request 0 4096), (E11, S_request 0 4096), (E12, S_request 0 4096), (E13, S_request 0 4096), (E14, S_request 0 4096), (E15, S_request 0 4096), (E16, S_request 0 4096), (E17, S_request 0 4096)] ?A0 =
      Inr (?A4,
         [Some (pages_ret E1, 4096, pages_ret E1),
          Some (pages_ret E1 + 4096, 4096, pages_ret E1 + 4096),
          Some (pages_ret E1 + 8192, 4096, pages_ret E1 + 8192),
          Some (pages_ret E1 + 12288, 4096, pages_ret E1 + 12288),
          Some (pages_ret E5, 4096, pages_ret E5),
          Some (pages_ret E5 + 4096, 4096, pages_ret E5 + 4096),
          Some (pages_ret E5 + 8192, 4096, pages_ret E5 + 8192),
          Some (pages_ret E5 + 12288, 4096, pages_ret E5 + 12288),
          Some (pages_ret E9, 4096, pages_ret E9),
          Some (pages_ret E9 + 4096, 4096, pages_ret E9 + 4096),
          Some (pages_ret E9 + 8192, 4096, pages_ret E9 + 8192),
          Some (pages_ret E9 + 12288, 4096, pages_ret E9 + 12288),
          Some (pages_ret E13, 4096, pages_ret E13),
          Some (pages_ret E13 + 4096, 4096, pages_ret E13 + 4096),
          Some (pages_ret E13 + 8192, 4096, pages_ret E13 + 8192),
          Some (pages_ret E13 + 12288, 4096, pages_ret E13 + 12288),
          None])"
    by (simp only: S4_block [OF c0 g(1-4)] r1 sum.case prod.case)
  have A4: "?A4 = S_allocator False \<lparr>blockPos := pages_ret E13 + 16384, blockEnd := pages_ret E13 + 16384,
            blocks := [pages_ret E1, pages_ret E5, pages_ret E9, pages_ret E13]\<rparr>"
    by (simp add: S_allocator_def)
  from r0 last show ?thesis
    by (simp only: A4) 
qed

theorem sixteen_requests_fill_four_blocks_witness:
  "granted S_platform (S_env 65536 0 0) \<and> granted S_platform (S_env 131072 0 0) \<and>
   granted S_platform (S_env 196608 0 0) \<and> granted S_platform (S_env 262144 0 0) \<and>
   run S_platform
     [(S_env 65536 0 0, S_request 0 4096),
      (S_env 65536 0 0, S_request 0 4096),
      (S_env 65536 0 0, S_request 0 4096),
      (S_env 65536 0 0, S_request 0 4096),
      (S_env 131072 0 0, S_request 0 4096),
      (S_env 131072 0 0, S_request 0 4096),
      (S_env 131072 0 0, S_request 0 4096),
      (S_env 131072 0 0, S_request 0 4096),
      (S_env 196608 0 0, S_request 0 4096),
      (S_env 196608 0 0, S_request 0 4096),
      (S_env 196608 0 0, S_request 0 4096),
      (S_env 196608 0 0, S_request 0 4096),
      (S_env 262144 0 0, S_request 0 4096),
      (S_env 262144 0 0, S_request 0 4096),
      (S_env 262144 0 0, S_request 0 4096),
      (S_env 262144 0 0, S_request 0 4096),
      (S_env 327680 0 0, S_request 0 4096)]
     (S_allocator False) =
   Inr (S_full,
        [Some (65536, 4096, 65536), Some (69632, 4096, 69632), Some (73728, 4096, 73728), Some (77824, 4096, 77824), Some (131072, 4096, 131072), Some (135168, 4096, 135168), Some (139264, 4096, 139264), Some (143360, 4096, 143360), Some (196608, 4096, 196608), Some (200704, 4096, 200704), Some (204800, 4096, 204800), Some (208896, 4096, 208896), Some (262144, 4096, 262144), Some (266240, 4096, 266240), Some (270336, 4096, 270336), Some (274432, 4096, 274432), None]) \<and>
   allocate S_platform (S_env 327680 0 0) (S_request 0 4096) S_full = Inr (None, S_full, [])"
proof -
  have g: "granted S_platform (S_env 65536 0 0)" "granted S_platform (S_env 131072 0 0)"
    "granted S_platform (S_env 196608 0 0)" "granted S_platform (S_env 262144 0 0)"
    by (simp_all add: granted_def S_env_def S_platform_def)
  have p: "pages_ret (S_env 65536 0 0) = 65536" "pages_ret (S_env 131072 0 0) = 131072"
    "pages_ret (S_env 196608 0 0) = 196608" "pages_ret (S_env 262144 0 0) = 262144"
    by (simp_all add: S_env_def)
  have f: "S_allocator False \<lparr>blockPos := 262144 + 16384, blockEnd := 262144 + 16384,
      blocks := [65536, 131072, 196608, 262144]\<rparr> = S_full"
    by (simp add: S_full_def)
  have n: "(65536 :: addr) + 4096 = 69632" "(65536 :: addr) + 8192 = 73728"
    "(65536 :: addr) + 12288 = 77824" "(131072 :: addr) + 4096 = 135168"
    "(131072 :: addr) + 8192 = 139264" "(131072 :: addr) + 12288 = 143360"
    "(196608 :: addr) + 4096 = 200704" "(196608 :: addr) + 8192 = 204800"
    "(196608 :: addr) + 12288 = 208896" "(262144 :: addr) + 4096 = 266240"
    "(262144 :: addr) + 8192 = 270336" "(262144 :: addr) + 12288 = 274432"
    by simp_all
  from g have "\<forall>E\<in>set [S_env 65536 0 0, S_env 65536 0 0, S_env 65536 0 0, S_env 65536 0 0, S_env 131072 0 0, S_env 131072 0 0, S_env 131072 0 0, S_env 131072 0 0, S_env 196608 0 0, S_env 196608 0 0, S_env 196608 0 0, S_env 196608 0 0, S_env 262144 0 0, S_env 262144 0 0, S_env 262144 0 0, S_env 262144 0 0]. granted S_platform E"
    by simp
  from sixteen_requests_fill_four_blocks [OF this, of "S_env 327680 0 0"] g
  show ?thesis
    by (simp only: p f n) 
qed

section \<open>The cap on the number of blocks\<close>

lemma allocateNewBlock_cap_word:
  assumes "allocateNewBlock P E u A = Inr (ok, u', A', ev)"
    and "word_of_nat (length (blocks A)) * blockSize A \<le> maxTotalSize A"
  shows "word_of_nat (length (blocks A')) * blockSize A' \<le> maxTotalSize A'"
  using assms(1)
proof (cases rule: allocateNewBlock_cases)
  case capped
  then show ?thesis using assms(2) by simp
next
  case no_pages
  then show ?thesis using assms(2) by simp
next
  case reserved
  then show ?thesis by (simp add: not_less add.commute)
qed

lemma allocateNewBlock_cap_nat:
  assumes "allocateNewBlock P E u A = Inr (ok, u', A', ev)"
    and "length (blocks A) * unat (blockSize A) \<le> unat (maxTotalSize A)"
    and "unat (maxTotalSize A) + unat (blockSize A) < 2 ^ 64"
  shows "length (blocks A') * unat (blockSize A') \<le> unat (maxTotalSize A')"
  using assms(1)
proof (cases rule: allocateNewBlock_cases)
  case capped
  then show ?thesis using assms(2) by simp
next
  case no_pages
  then show ?thesis using assms(2) by simp
next
  case reserved
  from reserved(1) have "unat ((word_of_nat (length (blocks A)) + 1) * blockSize A)
      \<le> unat (maxTotalSize A)"
    by (simp add: not_less word_le_nat_alt)
  then have "(length (blocks A) + 1) * unat (blockSize A) \<le> unat (maxTotalSize A)"
    by (simp only: cap_check_nat [OF assms(2,3)])
  then show ?thesis using reserved(3) by simp
qed

lemma allocate_cap_word:
  assumes "allocate P E R A = Inr (res, A', ev)"
    and "word_of_nat (length (blocks A)) * blockSize A \<le> maxTotalSize A"
  shows "word_of_nat (length (blocks A')) * blockSize A' \<le> maxTotalSize A'"
  using assms(1)
proof (cases rule: allocate_cases)
  case oversize
  then show ?thesis using assms(2) by simp
next
  case fits
  from publish_config [OF fits(3)] show ?thesis using assms(2) by simp
next
  case (rejected u)
  from allocateNewBlock_cap_word [OF rejected(3) assms(2)] show ?thesis .
next
  case (reserved u A1 ev1)
  from allocateNewBlock_cap_word [OF reserved(3) assms(2)] publish_config [OF reserved(5)]
  show ?thesis by simp
qed

lemma allocate_cap_nat:
  assumes "allocate P E R A = Inr (res, A', ev)"
    and "length (blocks A) * unat (blockSize A) \<le> unat (maxTotalSize A)"
    and "unat (maxTotalSize A) + unat (blockSize A) < 2 ^ 64"
  shows "length (blocks A') * unat (blockSize A') \<le> unat (maxTotalSize A')"
  using assms(1)
proof (cases rule: allocate_cases)
  case oversize
  then show ?thesis using assms(2) by simp
next
  case fits
  from publish_config [OF fits(3)] show ?thesis using assms(2) by simp
next
  case (rejected u)
  from allocateNewBlock_cap_nat [OF rejected(3) assms(2,3)] show ?thesis .
next
  case (reserved u A1 ev1)
  from allocateNewBlock_cap_nat [OF reserved(3) assms(2,3)] publish_config [OF reserved(5)]
  show ?thesis by simp
qed

lemma run_cap_word:
  assumes "run P cs A = Inr (A', rs)"
    and "word_of_nat (length (blocks A)) * blockSize A \<le> maxTotalSize A"
  shows "word_of_nat (length (blocks A')) * blockSize A' \<le> maxTotalSize A'"
  using assms(1,2)
  by (rule run_invariant) (rule allocate_cap_word)

lemma run_cap_nat:
  assumes "run P cs A = Inr (A', rs)"
    and "length (blocks A) * unat (blockSize A) \<le> unat (maxTotalSize A)"
    and "unat (maxTotalSize A) + unat (blockSize A) < 2 ^ 64"
  shows "length (blocks A') * unat (blockSize A') \<le> unat (maxTotalSize A')"
proof -
  let ?I = "\<lambda>A. length (blocks A) * unat (blockSize A) \<le> unat (maxTotalSize A) \<and>
                 unat (maxTotalSize A) + unat (blockSize A) < 2 ^ 64"
  have "?I A'"
  proof (rule run_invariant [OF assms(1), where I = ?I])
    show "?I A" using assms(2,3) by simp
  next
    fix E R A res A1 ev
    assume I: "?I A" and a: "allocate P E R A = Inr (res, A1, ev)"
    from allocate_cap_nat [OF a] I allocate_config [OF a] show "?I A1" by simp
  qed
  then show ?thesis by simp
qed

lemma refuses_iff_capped:
  "allocateNewBlock P E u A = Inr (False, u, A, []) \<longleftrightarrow>
   (word_of_nat (length (blocks A)) + 1) * blockSize A > maxTotalSize A"
  by (auto simp: allocateNewBlock_def Let_def)

text \<open>
  C4. In every state that a sequence of \<open>allocate\<close> calls reaches from a constructed
  allocator, \<open>blocks.size() * blockSize \<le> maxTotalSize\<close>, and \<open>allocateNewBlock\<close>
  refuses to reserve (it returns \<open>false\<close> with the allocator unchanged and without
  asking the platform for pages) exactly when
  \<open>(blocks.size() + 1) * blockSize > maxTotalSize\<close>. Both hold in the 64-bit arithmetic
  of the program, and both hold for the products as natural numbers when
  \<open>maxTotalSize + blockSize\<close> is below \<open>2 ^ 64\<close>, where the test cannot wrap around.
\<close>

theorem cap_is_hard_bound:
  assumes "fresh P bs mts ctx cr de = Inr A0" and "run P cs A0 = Inr (A, rs)"
  shows "word_of_nat (length (blocks A)) * blockSize A \<le> maxTotalSize A \<and>
         (allocateNewBlock P E u A = Inr (False, u, A, []) \<longleftrightarrow>
            (word_of_nat (length (blocks A)) + 1) * blockSize A > maxTotalSize A) \<and>
         (unat mts + unat bs < 2 ^ 64 \<longrightarrow>
            length (blocks A) * unat (blockSize A) \<le> unat (maxTotalSize A) \<and>
            (allocateNewBlock P E u A = Inr (False, u, A, []) \<longleftrightarrow>
               (length (blocks A) + 1) * unat (blockSize A) > unat (maxTotalSize A)))"
proof -
  from assms(1) have A0: "blocks A0 = []" "blockSize A0 = bs" "maxTotalSize A0 = mts"
    by (auto simp: fresh_def split: if_splits)
  have w: "word_of_nat (length (blocks A)) * blockSize A \<le> maxTotalSize A"
    using run_cap_word [OF assms(2)] A0 by simp
  have n: "length (blocks A) * unat (blockSize A) \<le> unat (maxTotalSize A) \<and>
            (allocateNewBlock P E u A = Inr (False, u, A, []) \<longleftrightarrow>
               (length (blocks A) + 1) * unat (blockSize A) > unat (maxTotalSize A))"
    if no: "unat mts + unat bs < 2 ^ 64"
  proof -
    have 1: "length (blocks A) * unat (blockSize A) \<le> unat (maxTotalSize A)"
      using run_cap_nat [OF assms(2)] A0 no by simp
    have 2: "unat (maxTotalSize A) + unat (blockSize A) < 2 ^ 64"
      using run_config [OF assms(2)] A0 no by simp
    have "(word_of_nat (length (blocks A)) + 1) * blockSize A > maxTotalSize A \<longleftrightarrow>
        (length (blocks A) + 1) * unat (blockSize A) > unat (maxTotalSize A)"
      by (simp only: word_less_nat_alt cap_check_nat [OF 1 2])
    with 1 show ?thesis by (simp only: refuses_iff_capped)
  qed
  from w n show ?thesis by (simp only: refuses_iff_capped) blast
qed

text \<open>
  Four full blocks make \<open>4 * 16384 = 65536 = maxTotalSize\<close>; a fifth is refused.
\<close>

theorem cap_is_hard_bound_witness:
  "fresh S_platform 16384 65536 0 False False = Inr (S_allocator False) \<and>
   run S_platform
     [(S_env 65536 0 0, S_request 0 16000), (S_env 131072 0 0, S_request 0 16000),
      (S_env 196608 0 0, S_request 0 16000), (S_env 262144 0 0, S_request 0 16000)]
     (S_allocator False) =
   Inr (S_full,
        [Some (65536, 16000, 65536), Some (131072, 16000, 131072),
         Some (196608, 16000, 196608), Some (262144, 16000, 262144)]) \<and>
   unat (65536 :: size_t) + unat (16384 :: size_t) < 2 ^ 64 \<and>
   length (blocks S_full) * unat (blockSize S_full) \<le> unat (maxTotalSize S_full) \<and>
   allocateNewBlock S_platform (S_env 327680 0 0) 0 S_full = Inr (False, 0, S_full, [])"
proof -
  have c: "unat (65536 :: size_t) + unat (16384 :: size_t) < 2 ^ 64"
    by simp
  have over: "(length (blocks S_full) + 1) * unat (blockSize S_full) > unat (maxTotalSize S_full)"
    by (simp add: S_defs)
  from cap_is_hard_bound [OF fresh_S four_full_blocks, where E = "S_env 327680 0 0" and u = 0] c
  have "length (blocks S_full) * unat (blockSize S_full) \<le> unat (maxTotalSize S_full) \<and>
        (allocateNewBlock S_platform (S_env 327680 0 0) 0 S_full = Inr (False, 0, S_full, []) \<longleftrightarrow>
          (length (blocks S_full) + 1) * unat (blockSize S_full) > unat (maxTotalSize S_full))"
    by blast
  with over c fresh_S four_full_blocks show ?thesis
    by blast
qed

section \<open>Alignment of the results\<close>

text \<open>
  C5. When the page size is a multiple of 16, every successful call returns a
  \<open>resultCodeStart\<close> that is a multiple of 16. The assertion at the head of the layout
  makes the cursor a multiple of the page size, so blocks are page-aligned in every call
  that returns. \<open>result\<close> is the cursor itself when the call reserved no block, or
  reserved one without a create callback (no prelude); it is the start of the new block
  plus \<open>roundUp16\<close> of the size the callback reported when the call reserved a block with
  the callback set. In all three cases \<open>result\<close> is a multiple of 16 as well.
\<close>

theorem results_are_16_byte_aligned:
  assumes "allocate P E R A = Inr (Some (result, resultSize, resultCodeStart), A', ev)"
    and "kPageSize P AND 15 = 0"
  shows "unat resultCodeStart mod 16 = 0 \<and> unat result mod 16 = 0 \<and>
         (roundUp16 (dataSize R) + codeSize R > blockEnd A - blockPos A \<and>
          createBlockUnwindInfo A \<longrightarrow>
            result = pages_ret E + roundUp16 (create_size E)) \<and>
         (roundUp16 (dataSize R) + codeSize R > blockEnd A - blockPos A \<and>
          \<not> createBlockUnwindInfo A \<longrightarrow> result = pages_ret E) \<and>
         (roundUp16 (dataSize R) + codeSize R \<le> blockEnd A - blockPos A \<longrightarrow>
            result = blockPos A)"
proof -
  have aligned: "unat (c + u + roundUp16 (dataSize R)) mod 16 = 0 \<and> unat (c + u) mod 16 = 0"
    if "c AND (kPageSize P - 1) = 0" and "u AND 15 = 0" for c u :: "64 word"
  proof -
    from page_aligned_is_16_aligned [OF assms(2) that(1)] have "c AND 15 = 0" .
    from this that(2) have 1: "(c + u) AND 15 = 0" by (rule aligned16_add)
    from this roundUp16_aligned have "(c + u + roundUp16 (dataSize R)) AND 15 = 0"
      by (rule aligned16_add)
    with 1 show ?thesis by (simp only: aligned16_iff_mod)
  qed
  from assms(1) show ?thesis
  proof (cases rule: allocate_cases)
    case oversize
    then show ?thesis by simp
  next
    case fits
    from publish_Inr [OF fits(3)] have
      r: "result = blockPos A + 0" "resultCodeStart = blockPos A + 0 + roundUp16 (dataSize R)"
      and c: "blockPos A AND (kPageSize P - 1) = 0"
      by (simp_all add: add.assoc)
    from aligned [OF c, of 0] r fits(2) [THEN leD] show ?thesis by simp
  next
    case (rejected u)
    then show ?thesis by simp
  next
    case (reserved u A1 ev1)
    from publish_Inr [OF reserved(5)] have
      r: "result = blockPos A1 + u" "resultCodeStart = blockPos A1 + u + roundUp16 (dataSize R)"
      and c: "blockPos A1 AND (kPageSize P - 1) = 0"
      by (simp_all add: add.assoc)
    from reserved(3) have b: "blockPos A1 = pages_ret E"
      and u: "u = (if createBlockUnwindInfo A then roundUp16 (create_size E) else 0)"
      by (cases rule: allocateNewBlock_cases; simp)+
    from u have "u AND 15 = 0" by (simp add: roundUp16_aligned)
    from reserved(2) have "\<not> roundUp16 (dataSize R) + codeSize R \<le> blockEnd A - blockPos A"
      by (simp only: linorder_not_le)
    with aligned [OF c \<open>u AND 15 = 0\<close>] r b u reserved(2) show ?thesis by simp
  qed
qed

theorem results_are_16_byte_aligned_witness:
  "allocate S_platform (S_env 65536 7 40) (S_request 3 1) (S_allocator True) =
   Inr (Some (65584, 17, 65600),
        S_allocator True \<lparr>blockPos := 69632, blockEnd := 81920, blocks := [65536],
          unwindInfos := [7]\<rparr>,
        [AllocatePages 16384 65536, CreateBlockUnwindInfo 0 65536 16384,
         Memcpy 65597 8192 3, Memcpy 65600 12288 1,
         MakePagesExecutable 65536 4096, FlushInstructionCache 65600 1]) \<and>
   kPageSize S_platform AND 15 = 0 \<and>
   roundUp16 (dataSize (S_request 3 1)) + codeSize (S_request 3 1)
     > blockEnd (S_allocator True) - blockPos (S_allocator True) \<and>
   createBlockUnwindInfo (S_allocator True) \<and>
   unat (65600 :: addr) mod 16 = 0 \<and> unat (65584 :: addr) mod 16 = 0 \<and>
   (65584 :: addr) = pages_ret (S_env 65536 7 40) + roundUp16 (create_size (S_env 65536 7 40))"
proof -
  have 1: "kPageSize S_platform AND 15 = 0"
    by (simp add: S_platform_def)
  have 2: "roundUp16 (dataSize (S_request 3 1)) + codeSize (S_request 3 1)
     > blockEnd (S_allocator True) - blockPos (S_allocator True)"
    by (simp add: S_defs roundUp16_def)
  have 3: "createBlockUnwindInfo (S_allocator True)"
    by (simp add: S_defs)
  from results_are_16_byte_aligned [OF first_request_with_hook 1] 2 3 first_request_with_hook 1
  show ?thesis by blast
qed

section \<open>Layout of a request\<close>

text \<open>
  C6. A successful call lays the request out at the cursor it publishes at, named
  \<open>blockPos_before\<close> in the specification: the start of the block just reserved when
  the request did not fit the current block, else \<open>blockPos\<close> as the call found it.
  \<open>unwindInfoSize\<close> is not zero only when the call reserved a block with the create
  callback set. The data bytes are copied to
  \<open>cursor + unwindInfoSize + roundUp16(dataSize) - dataSize\<close>, the code bytes to
  \<open>cursor + unwindInfoSize + roundUp16(dataSize)\<close>, and the call returns
  \<open>(cursor + unwindInfoSize, roundUp16(dataSize) + codeSize, cursor + codeOffset)\<close>;
  a copy is made only for a size that is not zero. For three bytes of data and one of
  code in the current block, the data sits at offset 13 from the returned base and the
  code starts at base + 16.
\<close>

theorem layout_of_a_successful_call:
  assumes "allocate P E R A = Inr (Some (result, resultSize, resultCodeStart), A', ev)"
  shows "let totalSize = roundUp16 (dataSize R) + codeSize R;
             new = (totalSize > blockEnd A - blockPos A);
             cursor = (if new then pages_ret E else blockPos A);
             unwindInfoSize = (if new \<and> createBlockUnwindInfo A
                               then roundUp16 (create_size E) else 0);
             dataOffset = unwindInfoSize + roundUp16 (dataSize R) - dataSize R;
             codeOffset = unwindInfoSize + roundUp16 (dataSize R)
         in result = cursor + unwindInfoSize \<and> resultSize = totalSize \<and>
            resultCodeStart = cursor + codeOffset \<and>
            blockPos A' = cursor + alignToPageSize P (unwindInfoSize + totalSize) \<and>
            ev = (if new then AllocatePages (blockSize A) cursor #
                      (if createBlockUnwindInfo A
                       then [CreateBlockUnwindInfo (context' A) cursor (blockSize A)] else [])
                  else []) @
                 (if dataSize R \<noteq> 0
                  then [Memcpy (cursor + dataOffset) (data R) (dataSize R)] else []) @
                 (if codeSize R \<noteq> 0
                  then [Memcpy (cursor + codeOffset) (code R) (codeSize R)] else []) @
                 [MakePagesExecutable cursor (alignToPageSize P (unwindInfoSize + totalSize)),
                  FlushInstructionCache (cursor + codeOffset) (codeSize R)] \<and>
            (\<not> new \<and> dataSize R = 3 \<and> codeSize R = 1 \<longrightarrow>
               Memcpy (result + 13) (data R) 3 \<in> set ev \<and> resultCodeStart = result + 16)"
  using assms
proof (cases rule: allocate_cases)
  case oversize
  then show ?thesis by simp
next
  case fits
  from fits(2) have n: "\<not> roundUp16 (dataSize R) + codeSize R > blockEnd A - blockPos A"
    by (rule leD)
  have r3: "roundUp16 3 = 16" by (simp add: roundUp16_def)
  from publish_Inr [OF fits(3)] n show ?thesis
    by (auto simp: Let_def r3)
next
  case (rejected u)
  then show ?thesis by simp
next
  case (reserved u A1 ev1)
  from reserved(3) have A1: "blockPos A1 = pages_ret E"
    and u: "u = (if createBlockUnwindInfo A then roundUp16 (create_size E) else 0)"
    and ev1: "ev1 = AllocatePages (blockSize A) (pages_ret E) #
                (if createBlockUnwindInfo A
                 then [CreateBlockUnwindInfo (context' A) (pages_ret E) (blockSize A)] else [])"
    by (auto simp: allocateNewBlock_def Let_def roundUp16_def split: if_splits)
  from publish_Inr [OF reserved(5)] reserved(2) A1 u ev1 show ?thesis
    by (cases "createBlockUnwindInfo A"; cases "dataSize R = 0"; cases "codeSize R = 0";
        simp add: Let_def)
qed

theorem layout_of_a_successful_call_witness:
  "allocate S_platform (S_env 131072 0 0) (S_request 3 1)
     (S_allocator False \<lparr>blockPos := 69632, blockEnd := 81920, blocks := [65536]\<rparr>) =
   Inr (Some (69632, 17, 69648),
        S_allocator False \<lparr>blockPos := 73728, blockEnd := 81920, blocks := [65536]\<rparr>,
        [Memcpy 69645 8192 3, Memcpy 69648 12288 1,
         MakePagesExecutable 69632 4096, FlushInstructionCache 69648 1]) \<and>
   Memcpy (69632 + 13) (data (S_request 3 1)) 3 \<in>
     set [Memcpy 69645 8192 3, Memcpy 69648 12288 1,
          MakePagesExecutable 69632 4096, FlushInstructionCache 69648 1] \<and>
   (69648 :: addr) = 69632 + 16"
  using layout_of_a_successful_call [OF scenario_S2] scenario_S2
  by (simp add: Let_def S_defs roundUp16_def)

section \<open>Non-overlap of the returned ranges\<close>

text \<open>Reserving a block keeps the shape of the allocator and what was placed.\<close>

lemma apart_sym: "apart n b c \<Longrightarrow> apart n c b"
  by (auto simp: apart_def)

lemma limit_le_end:
  assumes "well_formed P A" and "b \<in> set (blocks A)"
  shows "limit A b \<le> unat b + unat (blockSize A)"
proof (cases "b = last (blocks A)")
  case True
  from assms(2) have "blocks A \<noteq> []" by auto
  with assms(1) have "unat (blockPos A) \<le> unat (last (blocks A)) + unat (blockSize A)"
    by (simp add: well_formed_def)
  with True show ?thesis by (simp add: limit_def)
next
  case False
  then show ?thesis by (simp add: limit_def)
qed

lemma placed_mono:
  assumes "placed A x" and "set (blocks A) \<subseteq> set (blocks A')"
    and "\<And>b. b \<in> set (blocks A) \<Longrightarrow> limit A b \<le> limit A' b"
  shows "placed A' x"
proof (cases x)
  case (Pair R res)
  show ?thesis
  proof (cases res)
    case None
    with Pair show ?thesis by (simp add: placed_def)
  next
    case (Some t)
    obtain r s c where t: "t = (r, s, c)" by (cases t)
    show ?thesis
    proof (cases "s = 0")
      case True
      with Pair Some t show ?thesis by (simp add: placed_def)
    next
      case False
      with assms(1) Pair Some t obtain b where
        c: "unat (roundUp16 (dataSize R)) + unat (codeSize R) < 2 ^ 64 \<longrightarrow>
              unat r \<le> unat c \<and> unat c + unat (codeSize R) = unat r + unat s"
        and b: "b \<in> set (blocks A)" "unat b \<le> unat r" "unat r + unat s \<le> limit A b"
        by (auto simp: placed_def)
      from assms(3) [OF b(1)] b(3) have "unat r + unat s \<le> limit A' b" by simp
      moreover from assms(2) b(1) have "b \<in> set (blocks A')" by auto
      ultimately show ?thesis
        using Pair Some t c b(2) by (auto simp: placed_def)
    qed
  qed
qed

lemma allocateNewBlock_well_formed:
  assumes "allocateNewBlock P E u A = Inr (ok, u', A1, ev)"
    and "well_formed P A" and "fresh_block A E"
  shows "well_formed P A1"
  using assms(1)
proof (cases rule: allocateNewBlock_cases)
  case capped
  then show ?thesis using assms(2) by simp
next
  case no_pages
  then show ?thesis using assms(2) by simp
next
  case reserved
  let ?b = "pages_ret E"
  let ?B = "blockSize A"
  from assms(3) reserved(2) have nw: "unat ?b + unat ?B < 2 ^ 64"
    and ap: "\<forall>c\<in>set (blocks A). apart ?B c ?b"
    by (auto simp: fresh_block_def)
  from nw have e: "unat (?b + ?B) = unat ?b + unat ?B"
    using unat_add_lem [of ?b ?B] by simp
  have A1: "blockSize A1 = ?B" "blockPos A1 = ?b" "blockEnd A1 = ?b + ?B"
    "blocks A1 = blocks A @ [?b]"
    using reserved(3) by simp_all
  from assms(2) have wf: "unat (kMaxUnwindDataSize P) < unat ?B"
    "unat (kPageSize P) dvd unat ?B"
    "\<forall>b\<in>set (blocks A). unat b + unat ?B < 2 ^ 64"
    "\<forall>b\<in>set (blocks A). \<forall>c\<in>set (blocks A). b \<noteq> c \<longrightarrow> apart ?B b c"
    by (simp_all add: well_formed_def)
  show ?thesis
    unfolding well_formed_def A1
    using wf nw ap e by (auto intro: apart_sym)
qed

lemma allocateNewBlock_placed:
  assumes "allocateNewBlock P E u A = Inr (ok, u', A1, ev)"
    and "well_formed P A" and "fresh_block A E" and "placed A x"
  shows "placed A1 x"
  using assms(1)
proof (cases rule: allocateNewBlock_cases)
  case capped
  then show ?thesis using assms(4) by simp
next
  case no_pages
  then show ?thesis using assms(4) by simp
next
  case reserved
  let ?b = "pages_ret E"
  let ?B = "blockSize A"
  from assms(3) reserved(2) have ap: "\<forall>c\<in>set (blocks A). apart ?B c ?b"
    by (auto simp: fresh_block_def)
  from assms(2) have B: "0 < unat ?B"
    by (simp add: well_formed_def)
  have A1: "blockSize A1 = ?B" "blocks A1 = blocks A @ [?b]"
    using reserved(3) by simp_all
  show ?thesis
  proof (rule placed_mono [OF assms(4)])
    show "set (blocks A) \<subseteq> set (blocks A1)"
      by (auto simp: A1)
  next
    fix c assume c: "c \<in> set (blocks A)"
    with ap have "apart ?B c ?b" by simp
    with B have "c \<noteq> ?b" by (auto simp: apart_def)
    then have "limit A1 c = unat c + unat ?B"
      by (simp add: limit_def A1)
    with limit_le_end [OF assms(2) c] show "limit A c \<le> limit A1 c" by simp
  qed
qed

lemma allocateNewBlock_reserved_room:
  assumes "allocateNewBlock P E 0 A = Inr (True, u, A1, ev)"
    and "well_formed P A" and "fresh_block A E"
  shows "unat (blockEnd A1) - unat (blockPos A1) = unat (blockSize A) \<and>
         unat u \<le> unat (kMaxUnwindDataSize P)"
  using assms(1)
proof (cases rule: allocateNewBlock_cases)
  case capped
  then show ?thesis by simp
next
  case no_pages
  then show ?thesis by simp
next
  case reserved
  let ?b = "pages_ret E"
  let ?B = "blockSize A"
  from assms(3) reserved(2) have nw: "unat ?b + unat ?B < 2 ^ 64"
    by (auto simp: fresh_block_def)
  then have e: "unat (?b + ?B) = unat ?b + unat ?B"
    using unat_add_lem [of ?b ?B] by simp
  from reserved(3) e have 1: "unat (blockEnd A1) - unat (blockPos A1) = unat (blockSize A)"
    by simp
  from reserved(4,5) have 2: "unat u \<le> unat (kMaxUnwindDataSize P)"
    by (auto simp: word_le_nat_alt split: if_splits)
  from 1 2 show ?thesis ..
qed

text \<open>
  Publishing a request that fits the room between cursor and sentinel: the cursor moves by
  whole pages and stays at or below the sentinel, and the returned range lies between
  the old cursor and the new one.
\<close>

lemma publish_arith:
  assumes pub: "publish P E R u A ev = Inr (res, A', ev')"
    and wf: "well_formed P A"
    and page: "kPageSize P = 2 ^ k" "k < 64"
    and room: "unat u + unat (roundUp16 (dataSize R) + codeSize R)
                 \<le> unat (blockEnd A) - unat (blockPos A)"
  obtains ps where
    "res = Some (blockPos A + u, roundUp16 (dataSize R) + codeSize R,
                 blockPos A + (u + roundUp16 (dataSize R)))"
    "A' = A\<lparr>blockPos := blockPos A + ps\<rparr>"
    "unat (blockPos A + u) = unat (blockPos A) + unat u"
    "unat (blockPos A + ps) = unat (blockPos A) + unat ps"
    "unat u + unat (roundUp16 (dataSize R) + codeSize R) \<le> unat ps"
    "unat (blockPos A) + unat ps \<le> unat (blockEnd A)"
    "unat (kPageSize P) dvd unat ps"
proof -
  let ?total = "roundUp16 (dataSize R) + codeSize R"
  let ?ps = "alignToPageSize P (u + ?total)"
  let ?pos = "unat (blockPos A)"
  let ?en = "unat (blockEnd A)"
  from publish_Inr [OF pub] have
    res: "res = Some (blockPos A + u, ?total, blockPos A + (u + roundUp16 (dataSize R)))"
    and A': "A' = A\<lparr>blockPos := blockPos A + ?ps\<rparr>"
    by simp_all
  from wf have le: "?pos \<le> ?en" and dv: "unat (kPageSize P) dvd (?en - ?pos)"
    by (simp_all add: well_formed_def)
  have en: "?en < 2 ^ 64"
    using unsigned_less [of "blockEnd A"] by simp
  have "unat u + unat ?total < 2 ^ 64"
    using room le en by linarith
  then have ut: "unat (u + ?total) = unat u + unat ?total"
    using unat_add_lem [of u ?total] by simp
  have rm: "unat (u + ?total) \<le> ?en - ?pos"
    using room ut by simp
  have "?en - ?pos < 2 ^ 64"
    using en by linarith
  note pb = pageSize_bounds [OF page rm dv this]
  have "?pos + unat ?ps < 2 ^ 64"
    using pb(2) le en by linarith
  then have pos': "unat (blockPos A + ?ps) = ?pos + unat ?ps"
    using unat_add_lem [of "blockPos A" ?ps] by simp
  have "?pos + unat u < 2 ^ 64"
    using room le en by linarith
  then have r: "unat (blockPos A + u) = ?pos + unat u"
    using unat_add_lem [of "blockPos A" u] by simp
  have 5: "unat u + unat ?total \<le> unat ?ps"
    using pb(1) ut by simp
  have 6: "?pos + unat ?ps \<le> ?en"
    using pb(2) le by linarith
  from res A' r pos' 5 6 pb(3) show ?thesis
    by (rule that)
qed

lemma publish_well_formed:
  assumes pub: "publish P E R u A ev = Inr (res, A', ev')"
    and wf: "well_formed P A"
    and page: "kPageSize P = 2 ^ k" "k < 64"
    and room: "unat u + unat (roundUp16 (dataSize R) + codeSize R)
                 \<le> unat (blockEnd A) - unat (blockPos A)"
  shows "well_formed P A'"
proof -
  from pub wf page room obtain ps where
    A': "A' = A\<lparr>blockPos := blockPos A + ps\<rparr>"
    and pos': "unat (blockPos A + ps) = unat (blockPos A) + unat ps"
    and le': "unat (blockPos A) + unat ps \<le> unat (blockEnd A)"
    and dv': "unat (kPageSize P) dvd unat ps"
    by (rule publish_arith)
  from wf have dv: "unat (kPageSize P) dvd (unat (blockEnd A) - unat (blockPos A))"
    and em: "blocks A = [] \<longrightarrow> blockEnd A = blockPos A"
    by (simp_all add: well_formed_def)
  have "unat (blockEnd A) - (unat (blockPos A) + unat ps)
          = (unat (blockEnd A) - unat (blockPos A)) - unat ps"
    by simp
  with dv dv' have 1: "unat (kPageSize P) dvd (unat (blockEnd A) - (unat (blockPos A) + unat ps))"
    by (simp only: dvd_diff_nat)
  have 2: "blockEnd A = blockPos A + ps" if "blocks A = []"
  proof -
    from that em have "blockEnd A = blockPos A" by simp
    with le' have "unat ps = 0" by simp
    then have "ps = 0" by (simp only: unat_eq_0)
    with \<open>blockEnd A = blockPos A\<close> show ?thesis by simp
  qed
  show ?thesis
    unfolding well_formed_def A'
    using wf 1 2 le' pos' by (auto simp: well_formed_def)
qed

lemma publish_placed:
  assumes pub: "publish P E R u A ev = Inr (res, A', ev')"
    and wf: "well_formed P A"
    and page: "kPageSize P = 2 ^ k" "k < 64"
    and room: "unat u + unat (roundUp16 (dataSize R) + codeSize R)
                 \<le> unat (blockEnd A) - unat (blockPos A)"
    and x: "placed A x"
  shows "placed A' x"
proof -
  from pub wf page room obtain ps where
    A': "A' = A\<lparr>blockPos := blockPos A + ps\<rparr>"
    and pos': "unat (blockPos A + ps) = unat (blockPos A) + unat ps"
    by (rule publish_arith)
  show ?thesis
  proof (rule placed_mono [OF x])
    show "set (blocks A) \<subseteq> set (blocks A')" by (simp add: A')
  next
    fix b assume "b \<in> set (blocks A)"
    show "limit A b \<le> limit A' b"
      by (simp add: limit_def A' pos')
  qed
qed

lemma publish_new_range:
  assumes pub: "publish P E R u A ev = Inr (res, A', ev')"
    and wf: "well_formed P A"
    and page: "kPageSize P = 2 ^ k" "k < 64"
    and room: "unat u + unat (roundUp16 (dataSize R) + codeSize R)
                 \<le> unat (blockEnd A) - unat (blockPos A)"
  obtains r s c where "res = Some (r, s, c)"
    "s \<noteq> 0 \<longrightarrow> blocks A \<noteq> []"
    "s \<noteq> 0 \<longrightarrow> unat (blockPos A) \<le> unat r"
    "s \<noteq> 0 \<longrightarrow> unat r + unat s \<le> unat (blockPos A')"
    "unat (blockPos A') \<le> unat (blockEnd A)"
    "blocks A' = blocks A" "blockSize A' = blockSize A"
    "unat (roundUp16 (dataSize R)) + unat (codeSize R) < 2 ^ 64 \<longrightarrow>
       unat r \<le> unat c \<and> unat c + unat (codeSize R) = unat r + unat s"
proof -
  note T = that
  let ?total = "roundUp16 (dataSize R) + codeSize R"
  let ?a = "roundUp16 (dataSize R)"
  let ?pos = "unat (blockPos A)"
  from pub wf page room obtain ps where
    res: "res = Some (blockPos A + u, ?total, blockPos A + (u + ?a))"
    and A': "A' = A\<lparr>blockPos := blockPos A + ps\<rparr>"
    and r: "unat (blockPos A + u) = ?pos + unat u"
    and pos': "unat (blockPos A + ps) = ?pos + unat ps"
    and fit: "unat u + unat ?total \<le> unat ps"
    and le': "?pos + unat ps \<le> unat (blockEnd A)"
    by (rule publish_arith)
  have en: "unat (blockEnd A) < 2 ^ 64"
    using unsigned_less [of "blockEnd A"] by simp
  have 1: "blocks A \<noteq> []" if "?total \<noteq> 0"
  proof
    assume "blocks A = []"
    with wf have "blockEnd A = blockPos A" by (simp add: well_formed_def)
    with room have "unat ?total = 0" by simp
    with that show False by (simp only: unat_eq_0)
  qed
  have 2: "?pos \<le> unat (blockPos A + u)" if "?total \<noteq> 0"
    using r by simp
  have 3: "unat (blockPos A + u) + unat ?total \<le> unat (blockPos A')" if "?total \<noteq> 0"
    using r pos' fit by (simp add: A')
  have 4: "unat (blockPos A') \<le> unat (blockEnd A)"
    using pos' le' by (simp add: A')
  have 5: "unat (blockPos A + u) \<le> unat (blockPos A + (u + ?a)) \<and>
           unat (blockPos A + (u + ?a)) + unat (codeSize R)
             = unat (blockPos A + u) + unat ?total"
    if nw: "unat ?a + unat (codeSize R) < 2 ^ 64"
  proof -
    from nw have t: "unat ?total = unat ?a + unat (codeSize R)"
      using unat_add_lem [of ?a "codeSize R"] by simp
    have "unat u + unat ?a < 2 ^ 64"
      using fit t le' en by linarith
    then have ua: "unat (u + ?a) = unat u + unat ?a"
      using unat_add_lem [of u ?a] by simp
    have "?pos + unat (u + ?a) < 2 ^ 64"
      using ua fit t le' en by linarith
    then have c: "unat (blockPos A + (u + ?a)) = ?pos + unat u + unat ?a"
      using unat_add_lem [of "blockPos A" "u + ?a"] ua by simp
    from c r t show ?thesis by simp
  qed
  have 6: "blocks A' = blocks A" "blockSize A' = blockSize A"
    by (simp_all add: A')
  show ?thesis
    using res 1 2 3 4 6 5
    by (intro T [of "blockPos A + u" ?total "blockPos A + (u + ?a)"]) blast+
qed

lemma publish_places_result:
  assumes pub: "publish P E R u A ev = Inr (res, A', ev')"
    and wf: "well_formed P A"
    and page: "kPageSize P = 2 ^ k" "k < 64"
    and room: "unat u + unat (roundUp16 (dataSize R) + codeSize R)
                 \<le> unat (blockEnd A) - unat (blockPos A)"
  shows "placed A' (R, res)"
proof -
  from pub wf page room obtain r s c where res: "res = Some (r, s, c)"
    and ne: "s \<noteq> 0 \<longrightarrow> blocks A \<noteq> []"
    and lo: "s \<noteq> 0 \<longrightarrow> unat (blockPos A) \<le> unat r"
    and hi: "s \<noteq> 0 \<longrightarrow> unat r + unat s \<le> unat (blockPos A')"
    and en: "unat (blockPos A') \<le> unat (blockEnd A)"
    and bl: "blocks A' = blocks A" and bs: "blockSize A' = blockSize A"
    and cf: "unat (roundUp16 (dataSize R)) + unat (codeSize R) < 2 ^ 64 \<longrightarrow>
       unat r \<le> unat c \<and> unat c + unat (codeSize R) = unat r + unat s"
    by (rule publish_new_range)
  show ?thesis
  proof (cases "s = 0")
    case True
    with res show ?thesis by (simp add: placed_def)
  next
    case False
    let ?b = "last (blocks A)"
    from ne [rule_format, OF False] have in_set: "?b \<in> set (blocks A')"
      by (simp add: bl)
    from wf ne [rule_format, OF False] have "unat ?b \<le> unat (blockPos A)"
      by (simp add: well_formed_def)
    with lo [rule_format, OF False] have 1: "unat ?b \<le> unat r" by simp
    from hi [rule_format, OF False] have 2: "unat r + unat s \<le> limit A' ?b"
      by (simp add: limit_def bl)
    from in_set 1 2 cf res show ?thesis
      by (auto simp: placed_def)
  qed
qed

lemma publish_disjoint:
  assumes pub: "publish P E R u A ev = Inr (res, A', ev')"
    and wf: "well_formed P A"
    and page: "kPageSize P = 2 ^ k" "k < 64"
    and room: "unat u + unat (roundUp16 (dataSize R) + codeSize R)
                 \<le> unat (blockEnd A) - unat (blockPos A)"
    and x: "placed A x"
  shows "disjoint_results (snd x) res"
proof -
  from pub wf page room obtain r s c where res: "res = Some (r, s, c)"
    and ne: "s \<noteq> 0 \<longrightarrow> blocks A \<noteq> []"
    and lo: "s \<noteq> 0 \<longrightarrow> unat (blockPos A) \<le> unat r"
    and hi: "s \<noteq> 0 \<longrightarrow> unat r + unat s \<le> unat (blockPos A')"
    and en: "unat (blockPos A') \<le> unat (blockEnd A)"
    and bl: "blocks A' = blocks A" and bs: "blockSize A' = blockSize A"
    and cf: "unat (roundUp16 (dataSize R)) + unat (codeSize R) < 2 ^ 64 \<longrightarrow>
       unat r \<le> unat c \<and> unat c + unat (codeSize R) = unat r + unat s"
    by (rule publish_new_range)
  obtain R0 res0 where x0: "x = (R0, res0)" by (cases x)
  show ?thesis
  proof (cases res0)
    case None
    with x0 show ?thesis by (simp add: disjoint_results_def)
  next
    case (Some t)
    obtain r0 s0 c0 where t: "t = (r0, s0, c0)" by (cases t)
    show ?thesis
    proof (cases "s0 = 0 \<or> s = 0")
      case True
      with x0 Some t res show ?thesis by (auto simp: disjoint_results_def)
    next
      case False
      then have s0: "s0 \<noteq> 0" and s: "s \<noteq> 0" by simp_all
      let ?l = "last (blocks A)"
      from x x0 Some t s0 obtain b where b: "b \<in> set (blocks A)" "unat b \<le> unat r0"
        "unat r0 + unat s0 \<le> limit A b"
        by (auto simp: placed_def)
      from wf ne [rule_format, OF s] have l: "?l \<in> set (blocks A)"
        "unat (blockEnd A) = unat ?l + unat (blockSize A)" "unat ?l \<le> unat (blockPos A)"
        by (simp_all add: well_formed_def)
      have "unat r0 + unat s0 \<le> unat r \<or> unat r + unat s \<le> unat r0"
      proof (cases "b = ?l")
        case True
        with b(3) have "unat r0 + unat s0 \<le> unat (blockPos A)"
          by (simp add: limit_def)
        with lo [rule_format, OF s] show ?thesis by simp
      next
        case False
        with b(3) have lim: "unat r0 + unat s0 \<le> unat b + unat (blockSize A)"
          by (simp add: limit_def)
        from wf b(1) l(1) False have "apart (blockSize A) b ?l"
          by (simp add: well_formed_def)
        then consider "unat b + unat (blockSize A) \<le> unat ?l"
          | "unat ?l + unat (blockSize A) \<le> unat b"
          by (auto simp: apart_def)
        then show ?thesis
        proof cases
          case 1
          with lim l(3) lo [rule_format, OF s] show ?thesis by simp
        next
          case 2
          with hi [rule_format, OF s] en l(2) b(2) show ?thesis by simp
        qed
      qed
      with x0 Some t res show ?thesis by (simp add: disjoint_results_def)
    qed
  qed
qed

text \<open>One call, and then a sequence of calls, on a platform that hands out fresh blocks.\<close>

lemma disjoint_results_None [simp]:
  "disjoint_results x None" "disjoint_results None y"
  by (auto simp: disjoint_results_def split: option.splits)

lemma placed_None [simp]: "placed A (R, None)"
  by (simp add: placed_def)

lemma allocate_step:
  assumes al: "allocate P E R A = Inr (res, A', ev)"
    and wf: "well_formed P A"
    and page: "kPageSize P = 2 ^ k" "k < 64"
    and fr: "fresh_block A E"
  shows "well_formed P A' \<and> placed A' (R, res) \<and>
         (\<forall>x. placed A x \<longrightarrow> placed A' x \<and> disjoint_results (snd x) res)"
  using al
proof (cases rule: allocate_cases)
  case oversize
  with wf show ?thesis by simp
next
  case fits
  from wf have "blockPos A \<le> blockEnd A"
    by (simp add: well_formed_def word_le_nat_alt)
  then have "unat (blockEnd A - blockPos A) = unat (blockEnd A) - unat (blockPos A)"
    by (rule unat_sub)
  with fits(2) have room: "unat (0 :: size_t) + unat (roundUp16 (dataSize R) + codeSize R)
      \<le> unat (blockEnd A) - unat (blockPos A)"
    by (simp add: word_le_nat_alt)
  note args = fits(3) wf page room
  from publish_well_formed [OF args] publish_places_result [OF args]
    publish_placed [OF args] publish_disjoint [OF args]
  show ?thesis by blast
next
  case (rejected u)
  from allocateNewBlock_well_formed [OF rejected(3) wf fr]
    allocateNewBlock_placed [OF rejected(3) wf fr] rejected(4)
  show ?thesis by simp
next
  case (reserved u A1 ev1)
  note wf1 = allocateNewBlock_well_formed [OF reserved(3) wf fr]
  note pl1 = allocateNewBlock_placed [OF reserved(3) wf fr]
  from allocateNewBlock_reserved_room [OF reserved(3) wf fr]
  have rm: "unat (blockEnd A1) - unat (blockPos A1) = unat (blockSize A)"
    and u: "unat u \<le> unat (kMaxUnwindDataSize P)"
    by simp_all
  from wf have "kMaxUnwindDataSize P \<le> blockSize A"
    by (simp add: well_formed_def word_le_nat_alt)
  then have "unat (blockSize A - kMaxUnwindDataSize P)
      = unat (blockSize A) - unat (kMaxUnwindDataSize P)"
    by (rule unat_sub)
  with reserved(1) have "unat (roundUp16 (dataSize R) + codeSize R)
      \<le> unat (blockSize A) - unat (kMaxUnwindDataSize P)"
    by (simp add: word_le_nat_alt)
  moreover from wf have "unat (kMaxUnwindDataSize P) < unat (blockSize A)"
    by (simp add: well_formed_def)
  ultimately have room: "unat u + unat (roundUp16 (dataSize R) + codeSize R)
      \<le> unat (blockEnd A1) - unat (blockPos A1)"
    using u rm by linarith
  note args = reserved(5) wf1 page room
  from publish_well_formed [OF args] publish_places_result [OF args]
    publish_placed [OF args] publish_disjoint [OF args] pl1
  show ?thesis by blast
qed

lemma run_steps:
  assumes "run P cs A = Inr (A', rs)"
    and "platform_sound P cs A"
    and "well_formed P A"
    and page: "kPageSize P = 2 ^ k" "k < 64"
    and "\<forall>x\<in>set past. placed A x"
    and "sorted_wrt (\<lambda>x y. disjoint_results (snd x) (snd y)) past"
  shows "well_formed P A' \<and>
         (\<forall>x\<in>set (past @ zip (map snd cs) rs). placed A' x) \<and>
         sorted_wrt (\<lambda>x y. disjoint_results (snd x) (snd y)) (past @ zip (map snd cs) rs)"
  using assms(1,2,3,6,7)
proof (induction cs arbitrary: A rs past)
  case Nil
  then show ?case by simp
next
  case (Cons c cs)
  obtain E R where c: "c = (E, R)" by (cases c)
  from Cons.prems(1) c obtain res A1 ev rs1 where
    1: "allocate P E R A = Inr (res, A1, ev)" and 2: "run P cs A1 = Inr (A', rs1)"
    and 3: "rs = res # rs1"
    by (auto split: sum.splits)
  from Cons.prems(2) c 1 have fr: "fresh_block A E" and ps: "platform_sound P cs A1"
    by simp_all
  from allocate_step [OF 1 Cons.prems(3) page fr] have
    wf1: "well_formed P A1" and new: "placed A1 (R, res)"
    and old: "\<forall>x. placed A x \<longrightarrow> placed A1 x \<and> disjoint_results (snd x) res"
    by simp_all
  have p1: "\<forall>x\<in>set (past @ [(R, res)]). placed A1 x"
    using Cons.prems(4) new old by auto
  have s1: "sorted_wrt (\<lambda>x y. disjoint_results (snd x) (snd y)) (past @ [(R, res)])"
    using Cons.prems(4,5) old by (auto simp: sorted_wrt_append)
  from Cons.IH [OF 2 ps wf1 p1 s1] c 3 show ?case by simp
qed

lemma disjoint_results_sets:
  "disjoint_results (Some (r1, s1, c1)) (Some (r2, s2, c2)) \<longleftrightarrow>
   {unat r1 ..< unat r1 + unat s1} \<inter> {unat r2 ..< unat r2 + unat s2} = {}"
  by (auto simp: disjoint_results_def unat_eq_0)

lemma fresh_well_formed:
  assumes "fresh P bs mts ctx cr de = Inr A0" and "unat (kPageSize P) dvd unat bs"
  shows "well_formed P A0"
proof -
  from assms(1) have "kMaxUnwindDataSize P < bs"
    and A0: "A0 = \<lparr>blockSize = bs, maxTotalSize = mts, context' = ctx,
                createBlockUnwindInfo = cr, destroyBlockUnwindInfo = de,
                blocks = [], unwindInfos = [], blockPos = 0, blockEnd = 0\<rparr>"
    by (auto simp: fresh_def split: if_splits)
  then have "unat (kMaxUnwindDataSize P) < unat bs"
    by (simp add: word_less_nat_alt)
  with assms(2) show ?thesis
    by (simp add: well_formed_def A0)
qed

lemma owning_block_unique:
  assumes wf: "well_formed P A" and s: "s \<noteq> 0"
    and b: "b \<in> set (blocks A)" "unat b \<le> unat r" "unat r + unat s \<le> limit A b"
  shows "\<exists>!b. b \<in> set (blocks A) \<and> unat b \<le> unat r \<and>
           unat r + unat s \<le> unat b + unat (blockSize A)"
proof (rule ex1I [of _ b])
  from limit_le_end [OF wf b(1)] b
  show "b \<in> set (blocks A) \<and> unat b \<le> unat r \<and> unat r + unat s \<le> unat b + unat (blockSize A)"
    by simp
next
  fix b'
  assume b': "b' \<in> set (blocks A) \<and> unat b' \<le> unat r \<and>
              unat r + unat s \<le> unat b' + unat (blockSize A)"
  from s have s0: "0 < unat s" by (simp add: unat_gt_0)
  show "b' = b"
  proof (rule ccontr)
    assume ne: "b' \<noteq> b"
    with wf b(1) b' have "apart (blockSize A) b' b"
      by (simp add: well_formed_def)
    with limit_le_end [OF wf b(1)] b b' s0 show False
      by (auto simp: apart_def)
  qed
qed

text \<open>
  C7, as stated: every returned triple points strictly inside exactly one owned block.
  The empty request on a new allocator returns the null pointer while the allocator
  owns no block. And a request with data but no code that uses up the rest of a block
  returns a \<open>resultCodeStart\<close> equal to the end of the block, which is not inside it.
\<close>

theorem empty_request_lies_in_no_block:
  "run S_platform [(S_env 65536 0 0, S_request 0 0)] (S_allocator False) =
     Inr (S_allocator False, [Some (0, 0, 0)]) \<and>
   blocks (S_allocator False) = [] \<and>
   run S_platform [(S_env 65536 0 0, S_request 0 4096), (S_env 131072 0 0, S_request 12288 0)]
     (S_allocator False) =
     Inr (S_allocator False \<lparr>blockPos := 81920, blockEnd := 81920, blocks := [65536]\<rparr>,
          [Some (65536, 4096, 65536), Some (69632, 12288, 81920)]) \<and>
   unat (81920 :: addr) = unat (65536 :: addr) + unat (blockSize (S_allocator False))"
  by (simp add: alloc_defs S_defs)

text \<open>
  C7, amended. Take a constructed allocator whose block size is a multiple of the page
  size, a page size that is a power of two, and a platform whose blocks end below the
  top of the address space and overlap none of the blocks the allocator owns. Then for
  every pair of distinct successful calls the returned ranges
  \<open>[result, result + resultSize)\<close> are disjoint; and every returned range that is not
  empty lies inside exactly one owned block, with \<open>resultCodeStart\<close> in the range or at
  its end: \<open>result \<le> resultCodeStart\<close> and
  \<open>resultCodeStart + codeSize = result + resultSize\<close> (for a request whose
  \<open>roundUp16(dataSize) + codeSize\<close> does not wrap around \<open>2 ^ 64\<close>). Addresses are
  compared as natural numbers.
\<close>

theorem returned_ranges_do_not_overlap:
  assumes "fresh P bs mts ctx cr de = Inr A0"
    and "run P cs A0 = Inr (A, rs)"
    and "platform_sound P cs A0"
    and "kPageSize P = 2 ^ k" and "k < 64"
    and "unat (kPageSize P) dvd unat bs"
  shows "(\<forall>i j r1 s1 c1 r2 s2 c2.
            i < j \<and> j < length rs \<and>
            rs ! i = Some (r1, s1, c1) \<and> rs ! j = Some (r2, s2, c2) \<longrightarrow>
            {unat r1 ..< unat r1 + unat s1} \<inter> {unat r2 ..< unat r2 + unat s2} = {}) \<and>
         (\<forall>i r s c.
            i < length rs \<and> rs ! i = Some (r, s, c) \<and> s \<noteq> 0 \<longrightarrow>
            (\<exists>!b. b \<in> set (blocks A) \<and> unat b \<le> unat r \<and>
                  unat r + unat s \<le> unat b + unat (blockSize A)) \<and>
            (unat (roundUp16 (dataSize (snd (cs ! i)))) + unat (codeSize (snd (cs ! i))) < 2 ^ 64
               \<longrightarrow> unat r \<le> unat c \<and>
                   unat c + unat (codeSize (snd (cs ! i))) = unat r + unat s))"
proof -
  let ?D = "\<lambda>x y. disjoint_results (snd x) (snd y)"
  let ?z = "zip (map snd cs) rs"
  have wf0: "well_formed P A0"
    using assms(1,6) by (rule fresh_well_formed)
  have "\<forall>x\<in>set []. placed A0 x" and "sorted_wrt ?D []"
    by simp_all
  from run_steps [OF assms(2,3) wf0 assms(4,5) this]
  have wf: "well_formed P A" and pl: "\<forall>x\<in>set ?z. placed A x" and so: "sorted_wrt ?D ?z"
    by simp_all
  have len: "length rs = length cs"
    using assms(2) by (rule run_length)
  have nth: "?z ! i = (snd (cs ! i), rs ! i)" if "i < length rs" for i
    using that len by simp
  have 1: "{unat r1 ..< unat r1 + unat s1} \<inter> {unat r2 ..< unat r2 + unat s2} = {}"
    if "i < j" "j < length rs" "rs ! i = Some (r1, s1, c1)" "rs ! j = Some (r2, s2, c2)"
    for i j r1 s1 c1 r2 s2 c2
  proof -
    from that(1,2) len have "?D (?z ! i) (?z ! j)"
      using so by (simp add: sorted_wrt_iff_nth_less)
    with that nth [of i] nth [of j] have
      "disjoint_results (Some (r1, s1, c1)) (Some (r2, s2, c2))"
      by simp
    then show ?thesis by (simp only: disjoint_results_sets)
  qed
  have 2: "(\<exists>!b. b \<in> set (blocks A) \<and> unat b \<le> unat r \<and>
                  unat r + unat s \<le> unat b + unat (blockSize A)) \<and>
            (unat (roundUp16 (dataSize (snd (cs ! i)))) + unat (codeSize (snd (cs ! i))) < 2 ^ 64
               \<longrightarrow> unat r \<le> unat c \<and>
                   unat c + unat (codeSize (snd (cs ! i))) = unat r + unat s)"
    if "i < length rs" "rs ! i = Some (r, s, c)" "s \<noteq> 0" for i r s c
  proof -
    from that(1) len have "i < length ?z" by simp
    then have "?z ! i \<in> set ?z" by (rule nth_mem)
    with pl have "placed A (?z ! i)" by (rule bspec)
    then have "placed A (snd (cs ! i), Some (r, s, c))"
      by (simp only: nth [OF that(1)] that(2))
    with that(3) obtain b where
      cf: "unat (roundUp16 (dataSize (snd (cs ! i)))) + unat (codeSize (snd (cs ! i))) < 2 ^ 64
               \<longrightarrow> unat r \<le> unat c \<and>
                   unat c + unat (codeSize (snd (cs ! i))) = unat r + unat s"
      and b: "b \<in> set (blocks A)" "unat b \<le> unat r" "unat r + unat s \<le> limit A b"
      by (auto simp: placed_def)
    from owning_block_unique [OF wf that(3) b] cf show ?thesis ..
  qed
  have all1: "\<forall>i j r1 s1 c1 r2 s2 c2.
            i < j \<and> j < length rs \<and>
            rs ! i = Some (r1, s1, c1) \<and> rs ! j = Some (r2, s2, c2) \<longrightarrow>
            {unat r1 ..< unat r1 + unat s1} \<inter> {unat r2 ..< unat r2 + unat s2} = {}"
  proof (intro allI impI, elim conjE)
    fix i j r1 s1 c1 r2 s2 c2
    assume "i < j" "j < length rs" "rs ! i = Some (r1, s1, c1)" "rs ! j = Some (r2, s2, c2)"
    then show "{unat r1 ..< unat r1 + unat s1} \<inter> {unat r2 ..< unat r2 + unat s2} = {}"
      by (rule 1)
  qed
  have all2: "\<forall>i r s c.
            i < length rs \<and> rs ! i = Some (r, s, c) \<and> s \<noteq> 0 \<longrightarrow>
            (\<exists>!b. b \<in> set (blocks A) \<and> unat b \<le> unat r \<and>
                  unat r + unat s \<le> unat b + unat (blockSize A)) \<and>
            (unat (roundUp16 (dataSize (snd (cs ! i)))) + unat (codeSize (snd (cs ! i))) < 2 ^ 64
               \<longrightarrow> unat r \<le> unat c \<and>
                   unat c + unat (codeSize (snd (cs ! i))) = unat r + unat s)"
  proof (intro allI, rule impI, elim conjE)
    fix i r s c
    assume "i < length rs" "rs ! i = Some (r, s, c)" "s \<noteq> 0"
    then show "(\<exists>!b. b \<in> set (blocks A) \<and> unat b \<le> unat r \<and>
                  unat r + unat s \<le> unat b + unat (blockSize A)) \<and>
            (unat (roundUp16 (dataSize (snd (cs ! i)))) + unat (codeSize (snd (cs ! i))) < 2 ^ 64
               \<longrightarrow> unat r \<le> unat c \<and>
                   unat c + unat (codeSize (snd (cs ! i))) = unat r + unat s)"
      by (rule 2)
  qed
  from all1 all2 show ?thesis by (rule conjI)
qed

theorem returned_ranges_do_not_overlap_witness:
  "fresh S_platform 16384 65536 0 False False = Inr (S_allocator False) \<and>
   run S_platform
     [(S_env 65536 0 0, S_request 0 17), (S_env 131072 0 0, S_request 3 1),
      (S_env 131072 0 0, S_request 0 16000)]
     (S_allocator False) =
   Inr (S_allocator False \<lparr>blockPos := 147456, blockEnd := 147456,
          blocks := [65536, 131072]\<rparr>,
        [Some (65536, 17, 65536), Some (69632, 17, 69648), Some (131072, 16000, 131072)]) \<and>
   platform_sound S_platform
     [(S_env 65536 0 0, S_request 0 17), (S_env 131072 0 0, S_request 3 1),
      (S_env 131072 0 0, S_request 0 16000)]
     (S_allocator False) \<and>
   kPageSize S_platform = 2 ^ 12 \<and> unat (kPageSize S_platform) dvd unat (16384 :: size_t) \<and>
   {unat (69632 :: addr) ..< unat (69632 :: addr) + unat (17 :: size_t)} \<inter>
     {unat (131072 :: addr) ..< unat (131072 :: addr) + unat (16000 :: size_t)} = {} \<and>
   (\<exists>!b. b \<in> set [65536, 131072 :: addr] \<and> unat b \<le> unat (69632 :: addr) \<and>
      unat (69632 :: addr) + unat (17 :: size_t) \<le> unat b + unat (16384 :: size_t)) \<and>
   unat (69632 :: addr) \<le> unat (69648 :: addr) \<and>
   unat (69648 :: addr) + unat (1 :: size_t) = unat (69632 :: addr) + unat (17 :: size_t)"
proof -
  have page: "kPageSize S_platform = 2 ^ 12" "(12 :: nat) < 64"
    and dv: "unat (kPageSize S_platform) dvd unat (16384 :: size_t)"
    by (simp_all add: S_platform_def)
  note t = returned_ranges_do_not_overlap [OF fresh_S three_requests three_requests_sound page dv]
  have 1: "{unat (69632 :: addr) ..< unat (69632 :: addr) + unat (17 :: size_t)} \<inter>
     {unat (131072 :: addr) ..< unat (131072 :: addr) + unat (16000 :: size_t)} = {}"
    by (rule t [THEN conjunct1, rule_format, of 1 2 69632 17 69648 131072 16000]) simp
  have "(\<exists>!b. b \<in> set (blocks (S_allocator False \<lparr>blockPos := 147456, blockEnd := 147456,
              blocks := [65536, 131072]\<rparr>)) \<and> unat b \<le> unat (69632 :: addr) \<and>
          unat (69632 :: addr) + unat (17 :: size_t) \<le> unat b +
            unat (blockSize (S_allocator False \<lparr>blockPos := 147456, blockEnd := 147456,
              blocks := [65536, 131072]\<rparr>))) \<and>
        (unat (roundUp16 (dataSize (snd ([(S_env 65536 0 0, S_request 0 17),
             (S_env 131072 0 0, S_request 3 1), (S_env 131072 0 0, S_request 0 16000)] ! 1)))) +
         unat (codeSize (snd ([(S_env 65536 0 0, S_request 0 17),
             (S_env 131072 0 0, S_request 3 1), (S_env 131072 0 0, S_request 0 16000)] ! 1)))
           < 2 ^ 64 \<longrightarrow>
         unat (69632 :: addr) \<le> unat (69648 :: addr) \<and>
         unat (69648 :: addr) + unat (codeSize (snd ([(S_env 65536 0 0, S_request 0 17),
             (S_env 131072 0 0, S_request 3 1), (S_env 131072 0 0, S_request 0 16000)] ! 1)))
           = unat (69632 :: addr) + unat (17 :: size_t))"
    by (rule t [THEN conjunct2, rule_format, of 1 69632 17 69648]) simp
  then have 2: "(\<exists>!b. b \<in> set [65536, 131072 :: addr] \<and> unat b \<le> unat (69632 :: addr) \<and>
      unat (69632 :: addr) + unat (17 :: size_t) \<le> unat b + unat (16384 :: size_t)) \<and>
   unat (69632 :: addr) \<le> unat (69648 :: addr) \<and>
   unat (69648 :: addr) + unat (1 :: size_t) = unat (69632 :: addr) + unat (17 :: size_t)"
    by (simp add: S_defs roundUp16_def)
  from fresh_S three_requests three_requests_sound page(1) dv 1 2 show ?thesis
    by (intro conjI) simp_all
qed

section \<open>The oversize guard\<close>

text \<open>
  C8. A request whose \<open>roundUp16(dataSize) + codeSize\<close> exceeds
  \<open>blockSize - kMaxUnwindDataSize\<close> fails at once: \<open>allocate\<close> returns \<open>false\<close>, the
  allocator is the one it was given (no block reserved, cursor not moved) and no call
  left the allocator, whatever room the current block has and whatever the world would
  have answered. This holds for the sizes as the program computes them, modulo
  \<open>2 ^ 64\<close>, and for the sizes as natural numbers when the sum does not wrap around.
\<close>

theorem oversize_request_fails:
  "(roundUp16 (dataSize R) + codeSize R > blockSize A - kMaxUnwindDataSize P \<longrightarrow>
      allocate P E R A = Inr (None, A, [])) \<and>
   (unat (dataSize R) + 15 + unat (codeSize R) < 2 ^ 64 \<and>
    unat (kMaxUnwindDataSize P) \<le> unat (blockSize A) \<and>
    (unat (dataSize R) + 15) div 16 * 16 + unat (codeSize R)
      > unat (blockSize A) - unat (kMaxUnwindDataSize P) \<longrightarrow>
      allocate P E R A = Inr (None, A, []))"
proof (intro conjI impI)
  assume "roundUp16 (dataSize R) + codeSize R > blockSize A - kMaxUnwindDataSize P"
  then show "allocate P E R A = Inr (None, A, [])"
    by (simp add: allocate_def roundUp16_def)
next
  assume a: "unat (dataSize R) + 15 + unat (codeSize R) < 2 ^ 64 \<and>
    unat (kMaxUnwindDataSize P) \<le> unat (blockSize A) \<and>
    (unat (dataSize R) + 15) div 16 * 16 + unat (codeSize R)
      > unat (blockSize A) - unat (kMaxUnwindDataSize P)"
  then have "unat (dataSize R) + 15 < 2 ^ 64" by linarith
  then have r: "unat (roundUp16 (dataSize R)) = (unat (dataSize R) + 15) div 16 * 16"
    by (rule unat_roundUp16)
  have "(unat (dataSize R) + 15) div 16 * 16 \<le> unat (dataSize R) + 15"
    by simp
  with a have "(unat (dataSize R) + 15) div 16 * 16 + unat (codeSize R) < 2 ^ 64"
    by linarith
  with r have "unat (roundUp16 (dataSize R)) + unat (codeSize R) < 2 ^ LENGTH(64)"
    by simp
  then have t: "unat (roundUp16 (dataSize R) + codeSize R)
      = unat (roundUp16 (dataSize R)) + unat (codeSize R)"
    by (simp only: unat_add_lem)
  from a have "kMaxUnwindDataSize P \<le> blockSize A"
    by (simp add: word_le_nat_alt)
  then have "unat (blockSize A - kMaxUnwindDataSize P)
      = unat (blockSize A) - unat (kMaxUnwindDataSize P)"
    by (rule unat_sub)
  with a r t have "roundUp16 (dataSize R) + codeSize R > blockSize A - kMaxUnwindDataSize P"
    by (simp add: word_less_nat_alt)
  then show "allocate P E R A = Inr (None, A, [])"
    by (simp add: allocate_def roundUp16_def)
qed

text \<open>Scenario S3: one byte more than \<open>blockSize - kMaxUnwindDataSize = 16128\<close>.\<close>

theorem oversize_request_fails_witness:
  "roundUp16 (dataSize (S_request 0 16129)) + codeSize (S_request 0 16129)
     > blockSize (S_allocator False) - kMaxUnwindDataSize S_platform \<and>
   unat (dataSize (S_request 0 16129)) + 15 + unat (codeSize (S_request 0 16129)) < 2 ^ 64 \<and>
   unat (kMaxUnwindDataSize S_platform) \<le> unat (blockSize (S_allocator False)) \<and>
   (unat (dataSize (S_request 0 16129)) + 15) div 16 * 16 + unat (codeSize (S_request 0 16129))
      > unat (blockSize (S_allocator False)) - unat (kMaxUnwindDataSize S_platform) \<and>
   allocate S_platform (S_env 65536 0 0) (S_request 0 16129) (S_allocator False)
     = Inr (None, S_allocator False, [])"
proof -
  have 1: "roundUp16 (dataSize (S_request 0 16129)) + codeSize (S_request 0 16129)
     > blockSize (S_allocator False) - kMaxUnwindDataSize S_platform"
    by (simp add: roundUp16_def S_defs)
  have 2: "unat (dataSize (S_request 0 16129)) + 15 + unat (codeSize (S_request 0 16129)) < 2 ^ 64"
    "unat (kMaxUnwindDataSize S_platform) \<le> unat (blockSize (S_allocator False))"
    "(unat (dataSize (S_request 0 16129)) + 15) div 16 * 16 + unat (codeSize (S_request 0 16129))
      > unat (blockSize (S_allocator False)) - unat (kMaxUnwindDataSize S_platform)"
    by (simp_all add: S_defs)
  from oversize_request_fails [where R = "S_request 0 16129" and A = "S_allocator False"
      and P = S_platform and E = "S_env 65536 0 0"] 1
  have "allocate S_platform (S_env 65536 0 0) (S_request 0 16129) (S_allocator False)
     = Inr (None, S_allocator False, [])"
    by blast
  with 1 2 show ?thesis by blast
qed

section \<open>Teardown\<close>

lemma freeBlocks_events:
  "e \<in> set (fst (freeBlocks free_ok bs bl)) \<Longrightarrow> \<exists>b. e = FreePages b bs"
  by (induction bl) (auto split: if_splits prod.splits)

lemma freeBlocks_all_ok:
  "\<forall>b\<in>set bl. free_ok b \<Longrightarrow> freeBlocks free_ok bs bl = (map (\<lambda>b. FreePages b bs) bl, None)"
  by (induction bl) auto

text \<open>
  C9. With the destroy callback set (or no handle stored), the calls of the destructor
  are: one \<open>destroyBlockUnwindInfo\<close> for each entry of \<open>unwindInfos\<close>, in order, so each
  stored handle is passed exactly once; after them only \<open>freePages\<close> calls. Every
  destroy call therefore comes before every \<open>freePages\<close>. This also holds when an
  assertion in \<open>freePages\<close> stops the destructor; when every \<open>munmap\<close> succeeds, each
  block is freed once, in order, and the destructor completes.
\<close>

theorem destructor_destroys_before_freeing:
  assumes "destroyBlockUnwindInfo A \<or> unwindInfos A = []"
  shows "\<exists>fs. fst (destructor free_ok A) =
            map (DestroyBlockUnwindInfo (context' A)) (unwindInfos A) @ fs \<and>
          (\<forall>e\<in>set fs. \<exists>b. e = FreePages b (blockSize A)) \<and>
          ((\<forall>b\<in>set (blocks A). free_ok b) \<longrightarrow>
             fs = map (\<lambda>b. FreePages b (blockSize A)) (blocks A) \<and>
             snd (destructor free_ok A) = None)"
proof -
  let ?fs = "fst (freeBlocks free_ok (blockSize A) (blocks A))"
  have 1: "fst (destructor free_ok A) =
      map (DestroyBlockUnwindInfo (context' A)) (unwindInfos A) @ ?fs"
    using assms by (auto simp: destructor_def split: prod.splits)
  have 2: "\<forall>e\<in>set ?fs. \<exists>b. e = FreePages b (blockSize A)"
    using freeBlocks_events by blast
  have 3: "(\<forall>b\<in>set (blocks A). free_ok b) \<longrightarrow>
             ?fs = map (\<lambda>b. FreePages b (blockSize A)) (blocks A) \<and>
             snd (destructor free_ok A) = None"
    by (auto simp: freeBlocks_all_ok destructor_def)
  from 1 2 3 show ?thesis by blast
qed

text \<open>Two blocks with the handles 7 and 9: both destroyed, then both blocks freed.\<close>

theorem destructor_destroys_before_freeing_witness:
  "destroyBlockUnwindInfo (S_allocator True\<lparr>blocks := [65536, 131072], unwindInfos := [7, 9]\<rparr>) \<and>
   fst (destructor (\<lambda>b. True) (S_allocator True\<lparr>blocks := [65536, 131072], unwindInfos := [7, 9]\<rparr>))
     = [DestroyBlockUnwindInfo 0 7, DestroyBlockUnwindInfo 0 9,
        FreePages 65536 16384, FreePages 131072 16384]"
  using destructor_destroys_before_freeing [of
      "S_allocator True\<lparr>blocks := [65536, 131072], unwindInfos := [7, 9]\<rparr>" "\<lambda>b. True"]
  by (auto simp: S_allocator_def)

section \<open>The empty request\<close>

text \<open>
  C10. On an allocator as the constructor leaves it (no block, null cursor), a request
  with \<open>dataSize = 0\<close> and \<open>codeSize = 0\<close> returns \<open>true\<close> with \<open>result = nullptr\<close>,
  \<open>resultSize = 0\<close> and \<open>resultCodeStart = nullptr\<close>. The allocator is unchanged, and
  the only calls made are the protection change and the cache flush, both on the empty
  range at address 0: no block is reserved and nothing is copied. The protection change
  is asserted to succeed, so the statement is for a platform whose \<open>mprotect\<close> accepts
  the empty range.
\<close>

theorem empty_request_on_fresh_allocator:
  assumes "fresh P bs mts ctx cr de = Inr A"
    and "dataSize R = 0" and "codeSize R = 0" and "protect_ok E"
  shows "allocate P E R A =
           Inr (Some (0, 0, 0), A, [MakePagesExecutable 0 0, FlushInstructionCache 0 0])"
proof -
  from assms(1) have A: "blockPos A = 0" "blockEnd A = 0"
    by (auto simp: fresh_def split: if_splits)
  have page0: "alignToPageSize P 0 = 0"
    by (simp add: alignToPageSize_def)
  show ?thesis
    using assms(2-4) A page0
    by (simp add: allocate_def publish_def makePagesExecutable_def)
qed

theorem empty_request_on_fresh_allocator_witness:
  "fresh S_platform 16384 65536 0 False False = Inr (S_allocator False) \<and>
   allocate S_platform \<lparr>pages_ret = 65536, create_ret = 0, create_size = 0, protect_ok = True\<rparr>
     \<lparr>data = 0, dataSize = 0, code = 0, codeSize = 0\<rparr> (S_allocator False) =
     Inr (Some (0, 0, 0), S_allocator False,
          [MakePagesExecutable 0 0, FlushInstructionCache 0 0])"
  using empty_request_on_fresh_allocator [OF fresh_S, of
      "\<lparr>data = 0, dataSize = 0, code = 0, codeSize = 0\<rparr>"
      "\<lparr>pages_ret = 65536, create_ret = 0, create_size = 0, protect_ok = True\<rparr>" False]
  by (simp add: fresh_S)

end
